theory Spec2Isabelle
  imports Main
begin

section \<open>The lock file: start, stop and status\<close>

text \<open>
  The commands see the file system and the process table. The world of the model holds the
  text of \<^verbatim>\<open>/tmp/background_batch_installer.pid\<close> if that file exists, the lines of the log
  file if it exists, and what \<^verbatim>\<open>os.kill\<close> depends on: the ids of the processes that exist,
  those among them that the caller may not signal (processes of another user, when the
  caller is not root), the id of the calling process itself and the process group of every
  process. File contents are ASCII text, as the daemon writes them
  (\<^verbatim>\<open>str(os.getpid())\<close>); the caller may read and delete both files. What the commands
  print is returned as a list of lines.
\<close>

record world =
  pid_file :: "string option"
  log_file :: "string list option"
  procs :: "int set"
  foreign :: "int set"
  self :: int
  pgrp :: "int \<Rightarrow> int"

text \<open>The errors of \<^verbatim>\<open>kill(2)\<close> that \<^verbatim>\<open>os.kill\<close> raises as \<^verbatim>\<open>OSError\<close>: \<^verbatim>\<open>PermissionError\<close> and
  \<^verbatim>\<open>ProcessLookupError\<close> are subclasses of it. A call fails to return with a Python
  exception, or because the signal it sent ended the calling process itself.\<close>

datatype os_errno = EPERM | ESRCH

datatype failure = ValueError | OSError os_errno | OverflowError | Terminated

datatype signal = SIGTERM | SIGKILL | Probe

definition pid_path :: string where
  "pid_path = ''/tmp/background_batch_installer.pid''"

definition log_path :: string where
  "log_path = ''/tmp/background_batch_installer.log''"

text \<open>\<^verbatim>\<open>str(e)\<close> for an \<^verbatim>\<open>OSError\<close> raised by \<^verbatim>\<open>os.kill\<close>.\<close>

definition str_os_error :: "os_errno \<Rightarrow> string" where
  "str_os_error e =
     (case e of
        EPERM \<Rightarrow> ''[Errno 1] Operation not permitted''
      | ESRCH \<Rightarrow> ''[Errno 3] No such process'')"

subsection \<open>Text and numbers\<close>

text \<open>\<^verbatim>\<open>str.strip()\<close> removes the ASCII white space of Python: space, tab, line feed,
  vertical tab, form feed, carriage return and the separators 0x1C to 0x1F.\<close>

definition is_space :: "char \<Rightarrow> bool" where
  "is_space c = (c \<in> set [CHR '' '', CHR 0x09, CHR 0x0A, CHR 0x0B, CHR 0x0C, CHR 0x0D,
                           CHR 0x1C, CHR 0x1D, CHR 0x1E, CHR 0x1F])"

definition strip :: "string \<Rightarrow> string" where
  "strip s = rev (dropWhile is_space (rev (dropWhile is_space s)))"

definition is_digit :: "char \<Rightarrow> bool" where
  "is_digit c = (c \<in> set ''0123456789'')"

definition digit_val :: "char \<Rightarrow> nat" where
  "digit_val c = of_char c - 48"

text \<open>The digits of a Python integer literal in base ten: single underscores may stand
  between digits.\<close>

fun py_digits :: "string \<Rightarrow> nat \<Rightarrow> nat option" where
  "py_digits [] acc = Some acc"
| "py_digits (c # cs) acc =
     (if is_digit c then py_digits cs (10 * acc + digit_val c)
      else if c = CHR ''_'' \<and> cs \<noteq> [] \<and> is_digit (hd cs) then py_digits cs acc
      else None)"

text \<open>The longest text of digits that \<^verbatim>\<open>int\<close> converts
  (\<^verbatim>\<open>sys.int_info.default_max_str_digits\<close>, Python 3.11 and later): leading zeros count,
  underscores, sign and white space do not.\<close>

definition int_max_str_digits :: nat where
  "int_max_str_digits = 4300"

text \<open>\<^verbatim>\<open>int(s)\<close>: white space around, an optional sign, digits, and no more of them than
  the limit. \<open>None\<close> is \<^verbatim>\<open>ValueError\<close>.\<close>

definition py_int :: "string \<Rightarrow> int option" where
  "py_int s =
     (let t = strip s;
          neg = (t \<noteq> [] \<and> hd t = CHR ''-'');
          body = (if t \<noteq> [] \<and> (hd t = CHR ''-'' \<or> hd t = CHR ''+'') then tl t else t)
      in if body = [] \<or> \<not> is_digit (hd body) then None
         else if int_max_str_digits < length (filter is_digit body) then None
         else map_option (\<lambda>n. if neg then - int n else int n) (py_digits body 0))"

fun str_nat :: "nat \<Rightarrow> string" where
  "str_nat n =
     (if n < 10 then [char_of (48 + n)] else str_nat (n div 10) @ [char_of (48 + n mod 10)])"

definition str_int :: "int \<Rightarrow> string" where
  "str_int i = (if i < 0 then CHR ''-'' # str_nat (nat (- i)) else str_nat (nat i))"

subsection \<open>Signals\<close>

text \<open>
  The processes that \<^verbatim>\<open>kill(pid, sig)\<close> addresses, after \<^verbatim>\<open>kill(2)\<close> of Linux: for a positive
  \<open>pid\<close> the process with that id; for 0 every process in the process group of the caller,
  the caller among them; for -1 every process but the caller and process 1; for a \<open>pid\<close>
  below -1 every process in the process group \<open>- pid\<close>, and none for the least C \<^verbatim>\<open>int\<close>,
  which has no negation.
\<close>

definition targets :: "world \<Rightarrow> int \<Rightarrow> int set" where
  "targets w pid =
     (if 0 < pid then (if pid \<in> procs w then {pid} else {})
      else if pid = 0 then insert (self w) {p \<in> procs w. pgrp w p = pgrp w (self w)}
      else if pid = - 1 then procs w - {1, self w}
      else if pid = - 2147483648 then {}
      else {p \<in> procs w. pgrp w p = - pid})"

text \<open>The addressed processes that the caller may signal: they get the signal.\<close>

definition reached :: "world \<Rightarrow> int \<Rightarrow> int set" where
  "reached w pid = targets w pid - foreign w"

text \<open>
  \<^verbatim>\<open>os.kill(pid, sig)\<close>: a \<open>pid\<close> outside the range of a C \<^verbatim>\<open>int\<close> is an \<^verbatim>\<open>OverflowError\<close>;
  when no process is addressed the error is \<^verbatim>\<open>ESRCH\<close>, when none of the addressed
  processes may be signalled it is \<^verbatim>\<open>EPERM\<close> (but for -1, where Linux reports no error as
  long as a process is addressed). Signal 0 (\<open>Probe\<close>) only makes these checks.
  \<^verbatim>\<open>SIGKILL\<close> ends the processes it reaches. A \<^verbatim>\<open>SIGTERM\<close> or \<^verbatim>\<open>SIGKILL\<close> that reaches the
  caller ends the command: the \<^verbatim>\<open>stop\<close> and \<^verbatim>\<open>start\<close> commands install no handler before
  they call \<^verbatim>\<open>os.kill\<close>. What \<^verbatim>\<open>SIGTERM\<close> does to the other processes within the two
  seconds that \<^verbatim>\<open>stop_process\<close> waits is up to them: they may still run, they may have
  gone, or (the daemon, through \<^verbatim>\<open>cleanup_pid_file\<close>) they may have gone and removed the
  lock file.
\<close>

definition os_kill :: "world \<Rightarrow> int \<Rightarrow> signal \<Rightarrow> failure + world" where
  "os_kill w pid sg =
     (if pid < - 2147483648 \<or> 2147483647 < pid then Inl OverflowError
      else if targets w pid = {} then Inl (OSError ESRCH)
      else if reached w pid = {} \<and> pid \<noteq> - 1 then Inl (OSError EPERM)
      else (case sg of
              Probe \<Rightarrow> Inr w
            | SIGTERM \<Rightarrow> (if self w \<in> reached w pid then Inl Terminated else Inr w)
            | SIGKILL \<Rightarrow>
                (if self w \<in> reached w pid then Inl Terminated
                 else Inr (w\<lparr>procs := procs w - reached w pid\<rparr>))))"

datatype reaction = StillRunning | ExitedLeavingLock | ExitedRemovingLock

definition grace_period :: "reaction \<Rightarrow> int \<Rightarrow> world \<Rightarrow> world" where
  "grace_period r pid w =
     (case r of
        StillRunning \<Rightarrow> w
      | ExitedLeavingLock \<Rightarrow> w\<lparr>procs := procs w - reached w pid\<rparr>
      | ExitedRemovingLock \<Rightarrow> w\<lparr>procs := procs w - reached w pid, pid_file := None\<rparr>)"

definition os_remove_pid_file :: "world \<Rightarrow> world" where
  "os_remove_pid_file w = w\<lparr>pid_file := None\<rparr>"

text \<open>\<^verbatim>\<open>if os.path.exists(pid_file): os.remove(pid_file)\<close>, also \<^verbatim>\<open>cleanup_pid_file\<close>.\<close>

definition cleanup_pid_file :: "world \<Rightarrow> world" where
  "cleanup_pid_file w = (if pid_file w \<noteq> None then os_remove_pid_file w else w)"

subsection \<open>The commands\<close>

text \<open>\<^verbatim>\<open>check_existing_process\<close> (lines 79-101). The inner handler takes every \<^verbatim>\<open>OSError\<close>
  of the probe, whatever its \<^verbatim>\<open>errno\<close>; the outer handler is a bare \<^verbatim>\<open>except\<close>: it takes
  every exception of the block, whatever its class. The number read from the file goes to
  \<^verbatim>\<open>os.kill\<close> as it is, positive or not.\<close>

definition check_existing_process :: "world \<Rightarrow> bool \<times> string list \<times> world" where
  "check_existing_process w =
     (case pid_file w of
        None \<Rightarrow> (False, [], w)
      | Some content \<Rightarrow>
          (case py_int (strip content) of
             None \<Rightarrow> (False, [], os_remove_pid_file w)
           | Some pid \<Rightarrow>
               (case os_kill w pid Probe of
                  Inr w1 \<Rightarrow>
                    (True,
                     [''Another instance is already running (PID: '' @ str_int pid @ '')'',
                      ''Check log file: '' @ log_path,
                      ''If not running, remove: '' @ pid_path],
                     w1)
                | Inl (OSError e) \<Rightarrow> (False, [], os_remove_pid_file w)
                | Inl err \<Rightarrow> (False, [], os_remove_pid_file w))))"

text \<open>\<^verbatim>\<open>stop_process\<close> (lines 387-420). Its handlers take \<^verbatim>\<open>ValueError\<close> and \<^verbatim>\<open>OSError\<close> only;
  the inner \<^verbatim>\<open>try\<close> (lines 400-405) takes \<^verbatim>\<open>OSError\<close>. \<open>Inl\<close> is a call that does not
  return: an exception that leaves the function, or the end of the command by its own
  signal.\<close>

definition still_running_check :: "world \<Rightarrow> int \<Rightarrow> failure + string list \<times> world" where
  "still_running_check w pid =
     (case os_kill w pid Probe of
        Inl (OSError e) \<Rightarrow> Inr ([''Process stopped successfully''], w)
      | Inl err \<Rightarrow> Inl err
      | Inr w1 \<Rightarrow>
          (case os_kill w1 pid SIGKILL of
             Inl (OSError e) \<Rightarrow>
               Inr ([''Process still running, sending SIGKILL...'',
                     ''Process stopped successfully''], w1)
           | Inl err \<Rightarrow> Inl err
           | Inr w2 \<Rightarrow> Inr ([''Process still running, sending SIGKILL...''], w2)))"

definition stop_process :: "reaction \<Rightarrow> world \<Rightarrow> failure + string list \<times> world" where
  "stop_process r w =
     (case pid_file w of
        None \<Rightarrow> Inr ([''No process is running''], w)
      | Some content \<Rightarrow>
          (case py_int (strip content) of
             None \<Rightarrow> Inr ([''Invalid PID file''], cleanup_pid_file w)
           | Some pid \<Rightarrow>
               (case os_kill w pid SIGTERM of
                  Inl (OSError e) \<Rightarrow>
                    Inr ([''Error stopping process: '' @ str_os_error e], cleanup_pid_file w)
                | Inl err \<Rightarrow> Inl err
                | Inr w1 \<Rightarrow>
                    (case still_running_check (grace_period r pid w1) pid of
                       Inl (OSError e) \<Rightarrow>
                         Inr ([''Sent stop signal to process '' @ str_int pid,
                               ''Error stopping process: '' @ str_os_error e],
                              cleanup_pid_file (grace_period r pid w1))
                     | Inl err \<Rightarrow> Inl err
                     | Inr (out, w2) \<Rightarrow>
                         Inr ((''Sent stop signal to process '' @ str_int pid) # out,
                              cleanup_pid_file w2)))))"

text \<open>\<^verbatim>\<open>show_status\<close> (lines 365-385) and the \<^verbatim>\<open>status\<close> branch of the command line (lines
  605-610). Neither writes anything.\<close>

definition show_status :: "world \<Rightarrow> string list" where
  "show_status w =
     (case log_file w of
        None \<Rightarrow> []
      | Some lines \<Rightarrow>
          [''Log file: '' @ log_path, [], ''Last 10 lines of log:'']
          @ map strip (drop (length lines - 10) lines)
          @ [[], ''PID file: '' @ pid_path]
          @ (case pid_file w of
               None \<Rightarrow> []
             | Some content \<Rightarrow> [''Process ID: '' @ strip content]))"

definition status_command :: "world \<Rightarrow> string list \<times> world" where
  "status_command w =
     ((if pid_file w \<noteq> None then [''Background process is RUNNING'']
       else [''Background process is NOT running'']) @ show_status w,
      w)"

section \<open>Batch scheduler of the background installer\<close>

text \<open>
  The daemon of \<^verbatim>\<open>background_installer.py\<close> talks to three things it does not control: the
  package manager (through \<^verbatim>\<open>subprocess.run\<close>), the random source, and the termination
  signal whose handler sets the global \<^verbatim>\<open>shutdown_flag\<close>. All three are inputs of the model,
  collected in an environment. Everything the scheduler does is appended to a trace of
  events; the position of an event in the trace is the logical instant at which it happens,
  and the environment is asked by instant. Log lines are left out of the trace, except the
  batch header (lines 465-468), which records the batch number, the batch size, the
  progress so far and the selected packages.
\<close>

datatype proc_result = Returned int | TimeoutExpired | OtherException

datatype event =
    Run "string list" nat proc_result
  | Sleep nat
  | ReadFlag bool
  | RandInt int int int
  | Sample "string list"
  | BatchStart int int int "string list"

record env =
  signal_at :: "nat option"
  draw :: "nat \<Rightarrow> nat"
  pick :: "nat \<Rightarrow> nat \<Rightarrow> nat"
  run_result :: "nat \<Rightarrow> proc_result"

text \<open>
  \<open>signal_at e = Some k\<close>: the signal handler runs just before the event at position \<open>k\<close>;
  from then on \<^verbatim>\<open>shutdown_flag\<close> is true and is never reset. \<open>None\<close>: no signal arrives.
\<close>

definition shutdown_flag :: "env \<Rightarrow> nat \<Rightarrow> bool" where
  "shutdown_flag e i = (case signal_at e of None \<Rightarrow> False | Some k \<Rightarrow> k \<le> i)"

definition read_flag :: "env \<Rightarrow> event list \<Rightarrow> bool \<times> event list" where
  "read_flag e tr = (let b = shutdown_flag e (length tr) in (b, tr @ [ReadFlag b]))"

definition subprocess_run :: "env \<Rightarrow> string list \<Rightarrow> nat \<Rightarrow> event list \<Rightarrow> proc_result \<times> event list" where
  "subprocess_run e argv tmo tr = (let r = run_result e (length tr) in (r, tr @ [Run argv tmo r]))"

definition time_sleep :: "nat \<Rightarrow> event list \<Rightarrow> event list" where
  "time_sleep secs tr = tr @ [Sleep secs]"

text \<open>\<^verbatim>\<open>random.randint(lo, hi)\<close> with \<open>lo \<le> hi\<close>: some integer of the closed interval.\<close>

definition randint :: "env \<Rightarrow> int \<Rightarrow> int \<Rightarrow> event list \<Rightarrow> int \<times> event list" where
  "randint e lo hi tr =
     (let v = lo + int (draw e (length tr) mod nat (hi - lo + 1)) in (v, tr @ [RandInt lo hi v]))"

text \<open>
  \<^verbatim>\<open>random.sample(pool, k)\<close>: \<open>k\<close> elements from distinct positions of the pool. The only
  call passes \<open>k = min(batch_size, len(pool))\<close>, so the \<^verbatim>\<open>ValueError\<close> of a too large \<open>k\<close>
  cannot arise there.
\<close>

fun take_distinct :: "(nat \<Rightarrow> nat) \<Rightarrow> 'a list \<Rightarrow> nat \<Rightarrow> 'a list" where
  "take_distinct g pool 0 = []"
| "take_distinct g pool (Suc k) =
     (if pool = [] then []
      else let i = g k mod length pool
           in pool ! i # take_distinct g (take i pool @ drop (Suc i) pool) k)"

definition random_sample :: "env \<Rightarrow> string list \<Rightarrow> nat \<Rightarrow> event list \<Rightarrow> string list \<times> event list" where
  "random_sample e pool k tr =
     (let xs = take_distinct (pick e (length tr)) pool k in (xs, tr @ [Sample xs]))"

definition ALL_USEFUL_APPS :: "string list" where
  "ALL_USEFUL_APPS = [
    ''htop'', ''neofetch'', ''btop'', ''glances'', ''nmon'', ''bashtop'', ''ncdu'',
    ''ranger'', ''mc'', ''tree'', ''fdupes'', ''dust'', ''duf'', ''inxi'', ''hardinfo'',
    ''lshw'', ''screenfetch'', ''aptitude'', ''synaptic'', ''gdebi'', ''snapd'',
    ''flatpak'', ''zsh'', ''fish'', ''powerline'', ''fonts-powerline'', ''terminator'',
    ''guake'', ''tilix'', ''alacritty'', ''kitty'', ''tmux'', ''byobu'', ''screen'',
    ''expect'', ''vim'', ''neovim'', ''emacs'', ''nano'', ''micro'', ''gedit'',
    ''code'', ''geany'', ''bluefish'', ''rsync'', ''unzip'', ''p7zip-full'', ''rar'',
    ''unar'', ''filezilla'', ''lftp'', ''sshfs'', ''curlftpfs'', ''ntfs-3g'',
    ''exfat-utils'', ''hfsprogs'', ''nmap'', ''wireshark'', ''tcpdump'', ''net-tools'',
    ''netcat'', ''socat'', ''nethogs'', ''iftop'', ''bmon'', ''vnstat'', ''iperf3'',
    ''speedtest-cli'', ''openssh-server'', ''mosh'', ''wireguard-tools'', ''openvpn'',
    ''build-essential'', ''cmake'', ''autoconf'', ''automake'', ''libtool'',
    ''pkg-config'', ''checkinstall'', ''gcc'', ''g++'', ''clang'', ''gdb'',
    ''valgrind'', ''python3'', ''python3-pip'', ''python3-venv'', ''python3-dev'',
    ''python-is-python3'', ''nodejs'', ''npm'', ''default-jdk'', ''openjdk-17-jdk'',
    ''ruby'', ''perl'', ''php'', ''golang'', ''rustc'', ''cargo'', ''git'', ''gitk'',
    ''tig'', ''subversion'', ''apache2'', ''nginx'', ''mysql-server'', ''postgresql'',
    ''sqlite3'', ''sqlitebrowser'', ''redis-server'', ''mariadb-server'',
    ''phpmyadmin'', ''docker.io'', ''docker-compose'', ''ansible'', ''terraform'',
    ''awscli'', ''azure-cli'', ''kubernetes-client'', ''gimp'', ''inkscape'', ''krita'',
    ''blender'', ''darktable'', ''rawtherapee'', ''digikam'', ''shotwell'', ''vlc'',
    ''ffmpeg'', ''handbrake'', ''audacity'', ''obs-studio'', ''kdenlive'', ''openshot'',
    ''shotcut'', ''mpv'', ''clementine'', ''rhythmbox'', ''strawberry'',
    ''libreoffice'', ''thunderbird'', ''evolution'', ''evince'', ''okular'',
    ''calibre'', ''fcitx'', ''ibus'', ''fail2ban'', ''clamav'', ''clamtk'',
    ''rkhunter'', ''chkrootkit'', ''lynis'', ''ufw'', ''gufw'', ''keepassxc'',
    ''gnupg'', ''seahorse'', ''octave'', ''scilab'', ''maxima'', ''geogebra'',
    ''stellarium'', ''atomix'', ''steam'', ''lutris'', ''wine'', ''dosbox'', ''mame'',
    ''retroarch'', ''minetest'', ''supertuxkart'', ''virtualbox'', ''qemu-kvm'',
    ''libvirt-daemon-system'', ''virt-manager'', ''gnome-boxes'', ''cron'',
    ''logwatch'', ''rsyslog'', ''smartmontools'', ''testdisk'', ''gparted'', ''baobab'',
    ''hwinfo'', ''dmidecode'', ''mesa-utils'', ''vulkan-tools'', ''stress'',
    ''stress-ng'', ''cmatrix'', ''figlet'', ''lolcat'', ''cowsay'', ''fortune'', ''sl'',
    ''bb'', ''hollywood'', ''pipes.sh'', ''tty-clock'', ''firefox'',
    ''chromium-browser'', ''opera'', ''epiphany-browser'', ''falkon'', ''discord'',
    ''slack'', ''telegram-desktop'', ''signal-desktop'', ''pidgin'', ''hexchat'',
    ''transmission'', ''qbittorrent'', ''deluge'', ''dropbox'', ''nextcloud-client'',
    ''syncthing'', ''bleachbit'', ''stacer'', ''ubuntu-cleaner'', ''man-db'',
    ''manpages'', ''manpages-dev'', ''info'', ''texinfo'', ''bash-completion'',
    ''command-not-found'', ''software-properties-common'', ''ubuntu-drivers-common'',
    ''pptp-linux'', ''network-manager-pptp'', ''mtr'', ''hdparm'', ''lm-sensors'',
    ''psensor'', ''conky'', ''variety'', ''shutter'', ''kazam'', ''cheese'',
    ''gtk-recordmydesktop'', ''x11vnc'', ''vinagre'', ''remmina'', ''freerdp2-x11'',
    ''guvcview'', ''arc-theme'', ''papirus-icon-theme'', ''fonts-firacode'',
    ''fonts-hack'', ''fonts-noto'', ''fonts-liberation'', ''fonts-dejavu'',
    ''fonts-ubuntu'', ''fonts-roboto'', ''ttf-mscorefonts-installer'']"

subsection \<open>Package operations\<close>

definition update_system :: "env \<Rightarrow> event list \<Rightarrow> bool \<times> event list" where
  "update_system e tr =
     (case subprocess_run e [''apt'', ''update''] 300 tr of
        (Returned rc, tr1) \<Rightarrow> (if rc = 0 then (True, tr1) else (True, tr1))
      | (TimeoutExpired, tr1) \<Rightarrow> (False, tr1)
      | (OtherException, tr1) \<Rightarrow> (False, tr1))"

text \<open>The per-item pass of \<^verbatim>\<open>install_batch\<close> (lines 285-299): every attempt has its own
  \<^verbatim>\<open>try\<close>, so an exception of one attempt does not end the pass.\<close>

fun install_individually :: "env \<Rightarrow> string list \<Rightarrow> int \<Rightarrow> event list \<Rightarrow> int \<times> event list" where
  "install_individually e [] success_count tr = (success_count, tr)"
| "install_individually e (app # rest) success_count tr =
     (case subprocess_run e [''apt'', ''install'', ''-y'', app] 300 tr of
        (Returned rc, tr1) \<Rightarrow>
          install_individually e rest (if rc = 0 then success_count + 1 else success_count) tr1
      | (TimeoutExpired, tr1) \<Rightarrow> install_individually e rest success_count tr1
      | (OtherException, tr1) \<Rightarrow> install_individually e rest success_count tr1)"

definition install_batch :: "env \<Rightarrow> string list \<Rightarrow> event list \<Rightarrow> bool \<times> event list" where
  "install_batch e apps_list tr =
     (case subprocess_run e ([''apt'', ''install'', ''-y''] @ apps_list) 900 tr of
        (Returned rc, tr1) \<Rightarrow>
          (if rc = 0 then (True, tr1)
           else let (success_count, tr2) = install_individually e apps_list 0 tr1
                in (success_count > 0, tr2))
      | (TimeoutExpired, tr1) \<Rightarrow> (False, tr1)
      | (OtherException, tr1) \<Rightarrow> (False, tr1))"

text \<open>The per-item pass of \<^verbatim>\<open>uninstall_batch\<close> (lines 331-336) has no \<^verbatim>\<open>try\<close> of its own
  and looks at no return code: the first exception leaves the loop and reaches the handlers
  of the whole function. The result is the exception, if any.\<close>

fun uninstall_individually :: "env \<Rightarrow> string list \<Rightarrow> event list \<Rightarrow> proc_result option \<times> event list" where
  "uninstall_individually e [] tr = (None, tr)"
| "uninstall_individually e (app # rest) tr =
     (case subprocess_run e [''apt'', ''remove'', ''-y'', app] 180 tr of
        (Returned rc, tr1) \<Rightarrow> uninstall_individually e rest tr1
      | (TimeoutExpired, tr1) \<Rightarrow> (Some TimeoutExpired, tr1)
      | (OtherException, tr1) \<Rightarrow> (Some OtherException, tr1))"

definition uninstall_batch :: "env \<Rightarrow> string list \<Rightarrow> event list \<Rightarrow> bool \<times> event list" where
  "uninstall_batch e apps_list tr =
     (case subprocess_run e ([''apt'', ''remove'', ''-y''] @ apps_list) 600 tr of
        (Returned rc, tr1) \<Rightarrow>
          (if rc = 0 then (True, tr1)
           else (case uninstall_individually e apps_list tr1 of
                   (None, tr2) \<Rightarrow> (True, tr2)
                 | (Some exc, tr2) \<Rightarrow> (False, tr2)))
      | (TimeoutExpired, tr1) \<Rightarrow> (False, tr1)
      | (OtherException, tr1) \<Rightarrow> (False, tr1))"

definition cleanup_system :: "env \<Rightarrow> event list \<Rightarrow> event list" where
  "cleanup_system e tr =
     (case subprocess_run e [''apt'', ''autoremove'', ''-y''] 300 tr of
        (Returned rc, tr1) \<Rightarrow> snd (subprocess_run e [''apt'', ''autoclean''] 180 tr1)
      | (TimeoutExpired, tr1) \<Rightarrow> tr1
      | (OtherException, tr1) \<Rightarrow> tr1)"

subsection \<open>Cancellable waits\<close>

text \<open>\<^verbatim>\<open>for _ in range(n): if shutdown_flag: break; time.sleep(10)\<close> (lines 487-490, 510-513).\<close>

fun wait_ticks :: "env \<Rightarrow> nat \<Rightarrow> event list \<Rightarrow> event list" where
  "wait_ticks e 0 tr = tr"
| "wait_ticks e (Suc n) tr =
     (let (stop, tr1) = read_flag e tr
      in if stop then tr1 else wait_ticks e n (time_sleep 10 tr1))"

text \<open>Lines 482-483 and 507: the delays, in seconds.\<close>

definition draw_install_delay :: "env \<Rightarrow> event list \<Rightarrow> int \<times> event list" where
  "draw_install_delay e tr =
     (let (delay_minutes, tr1) = randint e 7 16 tr;
          (jitter, tr2) = randint e 0 59 tr1
      in (delay_minutes * 60 + jitter, tr2))"

definition draw_next_delay :: "env \<Rightarrow> event list \<Rightarrow> int \<times> event list" where
  "draw_next_delay e tr = randint e 60 180 tr"

definition install_wait :: "env \<Rightarrow> event list \<Rightarrow> event list" where
  "install_wait e tr =
     (let (delay_seconds, tr1) = draw_install_delay e tr
      in wait_ticks e (nat (delay_seconds div 10)) tr1)"

definition next_batch_wait :: "env \<Rightarrow> event list \<Rightarrow> event list" where
  "next_batch_wait e tr =
     (let (next_delay, tr1) = draw_next_delay e tr
      in wait_ticks e (nat (next_delay div 10)) tr1)"

subsection \<open>The batch loop of \<^verbatim>\<open>main_installation\<close>\<close>

record sched =
  processed_apps :: int
  batch_number :: int
  trace :: "event list"

datatype flow = Break | Continue

text \<open>Lines 455-462: the draw of the batch size, its adjustment to the remaining quota, and
  the choice of the packages.\<close>

definition select_batch :: "env \<Rightarrow> int \<Rightarrow> int \<Rightarrow> event list \<Rightarrow> (int \<times> string list) \<times> event list" where
  "select_batch e total_apps processed tr =
     (let (drawn, tr1) = randint e 5 14 tr;
          batch_size = (if processed + drawn > total_apps then total_apps - processed else drawn);
          (batch_apps, tr2) =
            random_sample e ALL_USEFUL_APPS
              (nat (min batch_size (int (length ALL_USEFUL_APPS)))) tr1
      in ((batch_size, batch_apps), tr2))"

text \<open>Lines 496-517: uninstall, the update of the count, the delay before the next batch and
  the occasional cleanup. The flag is read only where the left operand of \<^verbatim>\<open>and\<close> holds.\<close>

definition finish_batch :: "env \<Rightarrow> int \<Rightarrow> int \<Rightarrow> int \<Rightarrow> int \<Rightarrow> string list \<Rightarrow> event list \<Rightarrow> sched" where
  "finish_batch e total_apps processed n batch_size batch_apps tr =
     (let (removed, tr1) = uninstall_batch e batch_apps tr;
          processed' = processed + batch_size;
          tr2 = (if processed' < total_apps
                 then (let (stop, t) = read_flag e tr1
                       in if \<not> stop then next_batch_wait e t else t)
                 else tr1);
          tr3 = (if n mod 5 = 0
                 then (let (stop, t) = read_flag e tr2
                       in if \<not> stop then cleanup_system e t else t)
                 else tr2)
      in \<lparr>processed_apps = processed', batch_number = n, trace = tr3\<rparr>)"

text \<open>The body of the \<^verbatim>\<open>while\<close> loop in three parts. Lines 447-479: the batch is chosen and
  installed; \<open>None\<close> is one of the first two \<^verbatim>\<open>break\<close> statements. The result of
  \<^verbatim>\<open>install_batch\<close> only chooses between two log lines.\<close>

definition install_phase :: "env \<Rightarrow> int \<Rightarrow> sched \<Rightarrow> (int \<times> string list) option \<times> sched" where
  "install_phase e total_apps st =
     (let n = batch_number st + 1;
          (stop1, tr1) = read_flag e (trace st)
      in if stop1 then (None, st\<lparr>batch_number := n, trace := tr1\<rparr>)
         else
           let ((batch_size, batch_apps), tr2) = select_batch e total_apps (processed_apps st) tr1;
               tr3 = tr2 @ [BatchStart n batch_size (processed_apps st) batch_apps];
               (installed, tr4) = install_batch e batch_apps tr3;
               (stop2, tr5) = read_flag e tr4
           in if stop2 then (None, st\<lparr>batch_number := n, trace := tr5\<rparr>)
              else (Some (batch_size, batch_apps), st\<lparr>batch_number := n, trace := tr5\<rparr>))"

text \<open>Lines 482-494: the wait before uninstalling and the check after it.\<close>

definition wait_phase :: "env \<Rightarrow> event list \<Rightarrow> bool \<times> event list" where
  "wait_phase e tr = read_flag e (install_wait e tr)"

definition loop_body :: "env \<Rightarrow> int \<Rightarrow> sched \<Rightarrow> flow \<times> sched" where
  "loop_body e total_apps st =
     (case install_phase e total_apps st of
        (None, st1) \<Rightarrow> (Break, st1)
      | (Some (batch_size, batch_apps), st1) \<Rightarrow>
          (let (stop3, tr) = wait_phase e (trace st1)
           in if stop3 then (Break, st1\<lparr>trace := tr\<rparr>)
              else (Continue,
                    finish_batch e total_apps (processed_apps st1) (batch_number st1)
                      batch_size batch_apps tr)))"

lemma randint_range:
  assumes "lo \<le> hi" and "randint e lo hi tr = (v, tr')"
  shows "lo \<le> v \<and> v \<le> hi"
proof -
  have pos: "0 < nat (hi - lo + 1)" using assms(1) by simp
  have "draw e (length tr) mod nat (hi - lo + 1) < nat (hi - lo + 1)"
    using pos by (rule mod_less_divisor)
  moreover have "v = lo + int (draw e (length tr) mod nat (hi - lo + 1))"
    using assms(2) by (simp add: randint_def Let_def)
  ultimately show ?thesis by linarith
qed

lemma select_batch_size:
  assumes "processed < total_apps"
    and "fst (select_batch e total_apps processed tr) = (batch_size, batch_apps)"
  shows "1 \<le> batch_size \<and> batch_size \<le> 14 \<and> processed + batch_size \<le> total_apps
         \<and> (5 \<le> batch_size \<or> processed + batch_size = total_apps)"
proof -
  obtain drawn tr1 where d: "randint e 5 14 tr = (drawn, tr1)" by (cases "randint e 5 14 tr")
  have r: "5 \<le> drawn \<and> drawn \<le> 14" using randint_range [OF _ d] by simp
  have "batch_size = (if processed + drawn > total_apps then total_apps - processed else drawn)"
    using assms(2) d by (auto simp: select_batch_def Let_def split_def)
  then show ?thesis using r assms(1) by (auto split: if_splits)
qed

lemma finish_batch_processed:
  "processed_apps (finish_batch e total_apps processed n batch_size batch_apps tr)
     = processed + batch_size"
  by (simp add: finish_batch_def Let_def split_def)

lemma install_phase_Some:
  assumes "install_phase e total_apps st = (Some (batch_size, batch_apps), st1)"
  shows "processed_apps st1 = processed_apps st \<and> batch_number st1 = batch_number st + 1
         \<and> fst (select_batch e total_apps (processed_apps st) (snd (read_flag e (trace st))))
             = (batch_size, batch_apps)"
  using assms
  by (auto simp: install_phase_def Let_def split_def split: if_splits)

lemma loop_body_Continue:
  assumes "loop_body e total_apps st = (Continue, st')"
  obtains bs apps st1 where "install_phase e total_apps st = (Some (bs, apps), st1)"
    and "\<not> fst (wait_phase e (trace st1))"
    and "st' = finish_batch e total_apps (processed_apps st1) (batch_number st1) bs apps
                 (snd (wait_phase e (trace st1)))"
proof (cases "install_phase e total_apps st")
  case (Pair r st1)
  show ?thesis
  proof (cases r)
    case None
    with Pair assms show ?thesis by (simp add: loop_body_def)
  next
    case (Some b)
    obtain bs apps where b: "b = (bs, apps)" by (cases b)
    have i: "install_phase e total_apps st = (Some (bs, apps), st1)" using Pair Some b by simp
    have "\<not> fst (wait_phase e (trace st1))"
      using assms i by (auto simp: loop_body_def Let_def split_def split: if_splits)
    moreover have "st' = finish_batch e total_apps (processed_apps st1) (batch_number st1) bs apps
                 (snd (wait_phase e (trace st1)))"
      using assms i by (auto simp: loop_body_def Let_def split_def split: if_splits)
    ultimately show ?thesis using that i by blast
  qed
qed

lemma loop_body_progress:
  assumes "processed_apps st < total_apps" and "loop_body e total_apps st = (Continue, st')"
  shows "processed_apps st < processed_apps st' \<and> processed_apps st' \<le> total_apps"
proof -
  from assms(2) obtain bs apps st1 where
    i: "install_phase e total_apps st = (Some (bs, apps), st1)"
    and f: "st' = finish_batch e total_apps (processed_apps st1) (batch_number st1) bs apps
                 (snd (wait_phase e (trace st1)))"
    by (rule loop_body_Continue)
  have p: "processed_apps st' = processed_apps st + bs"
    using f install_phase_Some [OF i] by (simp add: finish_batch_processed)
  have "fst (select_batch e total_apps (processed_apps st) (snd (read_flag e (trace st))))
          = (bs, apps)"
    using install_phase_Some [OF i] by simp
  from select_batch_size [OF assms(1) this] p show ?thesis by simp
qed

lemma loop_body_decreases:
  assumes "(Continue, st') = loop_body e total_apps (st\<lparr>trace := tr\<rparr>)"
    and "processed_apps st < total_apps"
  shows "processed_apps st < processed_apps st'"
  using loop_body_progress [of "st\<lparr>trace := tr\<rparr>" total_apps e st'] assms by simp

text \<open>The \<^verbatim>\<open>while\<close> loop (line 446). \<^verbatim>\<open>and\<close> reads the flag only when the count is below
  the quota.\<close>

function main_loop :: "env \<Rightarrow> int \<Rightarrow> sched \<Rightarrow> sched" where
  "main_loop e total_apps st =
     (if processed_apps st < total_apps
      then (let (stop, tr1) = read_flag e (trace st)
            in if stop then st\<lparr>trace := tr1\<rparr>
               else (case loop_body e total_apps (st\<lparr>trace := tr1\<rparr>) of
                       (Break, st') \<Rightarrow> st'
                     | (Continue, st') \<Rightarrow> main_loop e total_apps st'))
      else st)"
  by pat_completeness auto
termination
  by (relation "measure (\<lambda>(e, total_apps, st). nat (total_apps - processed_apps st))")
     (auto dest: loop_body_decreases)

datatype terminal = Completed | Stopped

record report =
  quota :: int
  final :: sched
  banner :: terminal
  farewell :: terminal

text \<open>\<^verbatim>\<open>main_installation\<close> (lines 422-537) in three parts: the start (the update, whose
  result is only logged, and the draw of the quota), the loop, and the end. \<open>banner\<close> is the
  choice between \<^verbatim>\<open>PROCESS STOPPED BY USER\<close> and \<^verbatim>\<open>ALL BATCHES COMPLETED!\<close> (line 521),
  \<open>farewell\<close> the one between the last two messages (line 531); each reads the flag again.\<close>

definition start_run :: "env \<Rightarrow> int \<times> sched" where
  "start_run e =
     (let (updated, tr0) = update_system e [];
          (total_apps, tr1) = randint e 161 199 tr0
      in (total_apps, \<lparr>processed_apps = 0, batch_number = 0, trace = tr1\<rparr>))"

definition finish_run :: "env \<Rightarrow> int \<Rightarrow> sched \<Rightarrow> report" where
  "finish_run e total_apps st =
     (let (stop1, tr2) = read_flag e (trace st);
          tr3 = cleanup_system e tr2;
          (stop2, tr4) = read_flag e tr3
      in \<lparr>quota = total_apps, final = st\<lparr>trace := tr4\<rparr>,
          banner = (if stop1 then Stopped else Completed),
          farewell = (if stop2 then Stopped else Completed)\<rparr>)"

definition main_installation :: "env \<Rightarrow> report" where
  "main_installation e =
     (let (total_apps, st0) = start_run e
      in finish_run e total_apps (main_loop e total_apps st0))"

section \<open>Reading traces\<close>

text \<open>The seconds slept in a piece of a trace.\<close>

fun slept :: "event list \<Rightarrow> nat" where
  "slept [] = 0"
| "slept (Sleep secs # evs) = secs + slept evs"
| "slept (ev # evs) = slept evs"

text \<open>The closed form of a wait of \<open>n\<close> ticks that starts at instant \<open>i\<close>: \<open>m\<close> ticks, each a read
  of the flag that finds it unset and a sleep of 10 seconds, and then, if the wait is cut
  short, the read that finds the flag set. The flag is read at the instants \<open>i\<close>, \<open>i + 2\<close>, ...,
  so a signal at instant \<open>k\<close> leaves room for \<open>(k + 1 - i) div 2\<close> ticks.\<close>

definition tick_events :: "nat \<Rightarrow> event list" where
  "tick_events m = concat (replicate m [ReadFlag False, Sleep 10])"

definition ticks_done :: "env \<Rightarrow> nat \<Rightarrow> nat \<Rightarrow> nat" where
  "ticks_done e n i = (case signal_at e of None \<Rightarrow> n | Some k \<Rightarrow> min n ((k + 1 - i) div 2))"

definition wait_events :: "env \<Rightarrow> nat \<Rightarrow> nat \<Rightarrow> event list" where
  "wait_events e n i =
     tick_events (ticks_done e n i) @ (if ticks_done e n i < n then [ReadFlag True] else [])"

text \<open>Kinds of events: a call of \<^verbatim>\<open>apt remove\<close> (of a batch or of one package; not
  \<^verbatim>\<open>apt autoremove\<close>), a batch header. An operation \<open>extends\<close> a trace by events of a kind.\<close>

fun is_remove :: "event \<Rightarrow> bool" where
  "is_remove (Run argv tmo r) = (take 2 argv = [''apt'', ''remove''])"
| "is_remove ev = False"

fun is_batch_start :: "event \<Rightarrow> bool" where
  "is_batch_start (BatchStart n sz p apps) = True"
| "is_batch_start ev = False"

definition calm :: "event \<Rightarrow> bool" where
  "calm ev = (\<not> is_remove ev \<and> \<not> is_batch_start ev)"

definition quiet :: "event \<Rightarrow> bool" where
  "quiet ev = (\<not> is_batch_start ev)"

definition extends :: "(event \<Rightarrow> bool) \<Rightarrow> event list \<Rightarrow> event list \<Rightarrow> bool" where
  "extends Q tr tr' = (\<exists>evs. tr' = tr @ evs \<and> list_all Q evs)"

text \<open>The batches of a trace, from their headers: number, size, count of processed packages
  when the batch starts, and packages. \<open>batch_end\<close> is the count after the batch.
  \<open>batches_ok\<close> is the bound on sizes: at most 14 and as many as there are packages; at
  least 5, but for the last batch, which may be the non-empty remainder of the quota.\<close>

fun batches :: "event list \<Rightarrow> (int \<times> int \<times> int \<times> string list) list" where
  "batches [] = []"
| "batches (BatchStart n sz p apps # evs) = (n, sz, p, apps) # batches evs"
| "batches (ev # evs) = batches evs"

fun batch_end :: "int \<times> int \<times> int \<times> string list \<Rightarrow> int" where
  "batch_end (n, sz, p, apps) = p + sz"

definition batch_ok :: "int \<Rightarrow> bool \<Rightarrow> int \<times> int \<times> int \<times> string list \<Rightarrow> bool" where
  "batch_ok total_apps is_last b =
     (case b of (n, sz, p, apps) \<Rightarrow>
        sz \<le> 14 \<and> int (length apps) = sz
        \<and> (5 \<le> sz \<or> (is_last \<and> 1 \<le> sz \<and> p + sz = total_apps)))"

fun batches_ok :: "int \<Rightarrow> (int \<times> int \<times> int \<times> string list) list \<Rightarrow> bool" where
  "batches_ok total_apps [] = True"
| "batches_ok total_apps [b] = batch_ok total_apps True b"
| "batches_ok total_apps (b # bs) = (batch_ok total_apps False b \<and> batches_ok total_apps bs)"

subsection \<open>Loop heads, item passes and the mirrored policy\<close>

text \<open>The state at the head of the \<^verbatim>\<open>while\<close> loop after \<open>j\<close> complete passes, if the loop gets
  that far.\<close>

fun loop_head :: "env \<Rightarrow> int \<Rightarrow> sched \<Rightarrow> nat \<Rightarrow> sched option" where
  "loop_head e total_apps st 0 = Some st"
| "loop_head e total_apps st (Suc j) =
     (if processed_apps st < total_apps \<and> \<not> fst (read_flag e (trace st))
      then (case loop_body e total_apps (st\<lparr>trace := snd (read_flag e (trace st))\<rparr>) of
              (Break, st') \<Rightarrow> None
            | (Continue, st') \<Rightarrow> loop_head e total_apps st' j)
      else None)"

text \<open>A pass over the items of a batch in closed form: one call per item, in order, at
  consecutive instants; and the number of calls among \<open>n\<close> that return 0.\<close>

fun item_runs :: "env \<Rightarrow> string list \<Rightarrow> nat \<Rightarrow> string list \<Rightarrow> nat \<Rightarrow> event list" where
  "item_runs e cmd tmo [] i = []"
| "item_runs e cmd tmo (app # rest) i =
     Run (cmd @ [app]) tmo (run_result e i) # item_runs e cmd tmo rest (Suc i)"

fun successes :: "env \<Rightarrow> nat \<Rightarrow> nat \<Rightarrow> int" where
  "successes e 0 i = 0"
| "successes e (Suc n) i =
     (if run_result e i = Returned 0 then 1 else 0) + successes e n (Suc i)"

fun all_returned :: "env \<Rightarrow> nat \<Rightarrow> nat \<Rightarrow> bool" where
  "all_returned e 0 i = True"
| "all_returned e (Suc n) i =
     (case run_result e i of Returned rc \<Rightarrow> all_returned e n (Suc i)
      | TimeoutExpired \<Rightarrow> False | OtherException \<Rightarrow> False)"

text \<open>The policy of \<^verbatim>\<open>install_batch\<close> with the command and the two timeouts as parameters,
  and the uninstall phase as the specification words it: the mirror of the install phase
  with the remove operation.\<close>

fun per_item_policy ::
  "env \<Rightarrow> string list \<Rightarrow> nat \<Rightarrow> string list \<Rightarrow> int \<Rightarrow> event list \<Rightarrow> int \<times> event list" where
  "per_item_policy e cmd tmo [] success_count tr = (success_count, tr)"
| "per_item_policy e cmd tmo (app # rest) success_count tr =
     (case subprocess_run e (cmd @ [app]) tmo tr of
        (Returned rc, tr1) \<Rightarrow>
          per_item_policy e cmd tmo rest (if rc = 0 then success_count + 1 else success_count) tr1
      | (TimeoutExpired, tr1) \<Rightarrow> per_item_policy e cmd tmo rest success_count tr1
      | (OtherException, tr1) \<Rightarrow> per_item_policy e cmd tmo rest success_count tr1)"

definition batch_policy ::
  "env \<Rightarrow> string list \<Rightarrow> nat \<Rightarrow> nat \<Rightarrow> string list \<Rightarrow> event list \<Rightarrow> bool \<times> event list" where
  "batch_policy e cmd batch_tmo item_tmo apps_list tr =
     (case subprocess_run e (cmd @ apps_list) batch_tmo tr of
        (Returned rc, tr1) \<Rightarrow>
          (if rc = 0 then (True, tr1)
           else let (success_count, tr2) = per_item_policy e cmd item_tmo apps_list 0 tr1
                in (success_count > 0, tr2))
      | (TimeoutExpired, tr1) \<Rightarrow> (False, tr1)
      | (OtherException, tr1) \<Rightarrow> (False, tr1))"

definition uninstall_batch_mirror :: "env \<Rightarrow> string list \<Rightarrow> event list \<Rightarrow> bool \<times> event list" where
  "uninstall_batch_mirror e apps_list tr =
     batch_policy e [''apt'', ''remove'', ''-y''] 600 180 apps_list tr"

subsection \<open>Example worlds and environments\<close>

text \<open>The caller is process 5000; every process is its own process group. In the first
  three worlds the caller may signal every process, as root may.\<close>

definition live_world :: world where
  "live_world = \<lparr>pid_file = Some ''4242'', log_file = Some [''started''],
                  procs = {1, 4242, 5000}, foreign = {}, self = 5000, pgrp = (\<lambda>p. p)\<rparr>"

definition stale_world :: world where
  "stale_world = \<lparr>pid_file = Some ''4242'', log_file = Some [''started''],
                   procs = {1, 5000}, foreign = {}, self = 5000, pgrp = (\<lambda>p. p)\<rparr>"

definition corrupt_world :: world where
  "corrupt_world = \<lparr>pid_file = Some ''not a pid'', log_file = None,
                     procs = {1, 5000}, foreign = {}, self = 5000, pgrp = (\<lambda>p. p)\<rparr>"

text \<open>A lock file that holds the number 0, which is the id of no process; and a lock file
  that holds the id of a process that runs under another user, with a caller that is not
  root.\<close>

definition zero_world :: world where
  "zero_world = \<lparr>pid_file = Some ''0'', log_file = None,
                  procs = {1, 5000}, foreign = {1}, self = 5000, pgrp = (\<lambda>p. p)\<rparr>"

definition foreign_world :: world where
  "foreign_world = \<lparr>pid_file = Some ''4242'', log_file = Some [''started''],
                     procs = {1, 4242, 5000}, foreign = {1, 4242}, self = 5000,
                     pgrp = (\<lambda>p. p)\<rparr>"

definition jitter_env :: env where
  "jitter_env = \<lparr>signal_at = None, draw = (\<lambda>i. if i = 1 then 37 else 0),
                 pick = (\<lambda>i j. 0), run_result = (\<lambda>i. Returned 0)\<rparr>"

definition late_signal_env :: env where
  "late_signal_env = \<lparr>signal_at = Some 7, draw = (\<lambda>i. 0),
                      pick = (\<lambda>i j. 0), run_result = (\<lambda>i. Returned 0)\<rparr>"

definition timeout_env :: env where
  "timeout_env = \<lparr>signal_at = None, draw = (\<lambda>i. 0), pick = (\<lambda>i j. 0),
                  run_result = (\<lambda>i. TimeoutExpired)\<rparr>"

definition failing_env :: env where
  "failing_env = \<lparr>signal_at = None, draw = (\<lambda>i. 0), pick = (\<lambda>i j. 0),
                  run_result = (\<lambda>i. Returned 1)\<rparr>"

definition flaky_env :: env where
  "flaky_env = \<lparr>signal_at = None, draw = (\<lambda>i. 0), pick = (\<lambda>i j. 0),
                run_result = (\<lambda>i. if i = 0 then Returned 100 else if i = 2 then Returned 0
                                    else Returned 1)\<rparr>"

text \<open>The whole-batch call raises an exception that is no timeout; and the whole-batch call
  returns 1, the call for the first package returns 0 and the call for the second one times
  out.\<close>

definition broken_env :: env where
  "broken_env = \<lparr>signal_at = None, draw = (\<lambda>i. 0), pick = (\<lambda>i j. 0),
                  run_result = (\<lambda>i. OtherException)\<rparr>"

definition item_timeout_env :: env where
  "item_timeout_env = \<lparr>signal_at = None, draw = (\<lambda>i. 0), pick = (\<lambda>i j. 0),
                        run_result = (\<lambda>i. if i = 0 then Returned 1
                                            else if i = 2 then TimeoutExpired
                                            else Returned 0)\<rparr>"

definition wait_signal_env :: env where
  "wait_signal_env = \<lparr>signal_at = Some 12, draw = (\<lambda>i. 0), pick = (\<lambda>i j. 0),
                      run_result = (\<lambda>i. Returned 0)\<rparr>"

section \<open>Lemmas\<close>

declare main_loop.simps [simp del]

lemma slept_append: "slept (xs @ ys) = slept xs + slept ys"
  by (induction xs rule: slept.induct) simp_all

lemma slept_drop_le: "slept (drop d xs) \<le> slept xs"
proof (induction xs arbitrary: d)
  case Nil
  show ?case by simp
next
  case (Cons x xs)
  show ?case
  proof (cases d)
    case 0
    then show ?thesis by simp
  next
    case (Suc d')
    have "slept (drop d' xs) \<le> slept xs" by (rule Cons.IH)
    also have "slept xs \<le> slept (x # xs)" by (cases x) simp_all
    finally show ?thesis using Suc by simp
  qed
qed

lemma slept_tick_events: "slept (tick_events m) = 10 * m"
  by (induction m) (simp_all add: tick_events_def)

lemma ticks_done_le: "ticks_done e n i \<le> n"
  by (simp add: ticks_done_def split: option.splits)

lemma no_stop_in_ticks: "ReadFlag True \<notin> set (tick_events m)"
  by (induction m) (simp_all add: tick_events_def)

lemma wait_ticks_trace: "wait_ticks e n tr = tr @ wait_events e n (length tr)"
proof (induction n arbitrary: tr)
  case 0
  show ?case by (simp add: wait_events_def ticks_done_def tick_events_def split: option.splits)
next
  case (Suc n)
  show ?case
  proof (cases "shutdown_flag e (length tr)")
    case True
    then obtain k where k: "signal_at e = Some k" "k \<le> length tr"
      by (auto simp: shutdown_flag_def split: option.splits)
    then have "ticks_done e (Suc n) (length tr) = 0" by (simp add: ticks_done_def)
    then show ?thesis
      using True by (simp add: read_flag_def Let_def tick_events_def wait_events_def)
  next
    case False
    have step: "ticks_done e (Suc n) (length tr) = Suc (ticks_done e n (length tr + 2))"
    proof (cases "signal_at e")
      case None
      then show ?thesis by (simp add: ticks_done_def)
    next
      case (Some k)
      with False have "length tr < k" by (simp add: shutdown_flag_def)
      then have "(k + 1 - length tr) div 2 = Suc ((k + 1 - (length tr + 2)) div 2)" by arith
      then show ?thesis using Some by (simp add: ticks_done_def)
    qed
    have "wait_ticks e (Suc n) tr = wait_ticks e n (tr @ [ReadFlag False, Sleep 10])"
      using False by (simp add: read_flag_def Let_def time_sleep_def)
    also have "\<dots> = (tr @ [ReadFlag False, Sleep 10]) @ wait_events e n (length tr + 2)"
      using Suc.IH [of "tr @ [ReadFlag False, Sleep 10]"] by simp
    finally show ?thesis using step by (simp add: tick_events_def wait_events_def)
  qed
qed

lemma slept_wait_events: "slept (wait_events e n i) = 10 * ticks_done e n i"
  by (simp add: wait_events_def slept_append slept_tick_events)

lemma wait_events_uninterrupted:
  assumes "ReadFlag True \<notin> set (wait_events e n i)"
  shows "wait_events e n i = tick_events n"
proof -
  have "\<not> ticks_done e n i < n" using assms by (auto simp: wait_events_def split: if_splits)
  then have "ticks_done e n i = n" using ticks_done_le [of e n i] by simp
  then show ?thesis by (simp add: wait_events_def)
qed

lemma slept_late_ticks:
  "2 * m \<le> d + 1 \<Longrightarrow> slept (drop d (tick_events m @ rest)) \<le> 10 + slept rest"
proof (induction m arbitrary: d)
  case 0
  have "slept (drop d rest) \<le> slept rest" by (rule slept_drop_le)
  then show ?case by (simp add: tick_events_def)
next
  case (Suc m)
  show ?case
  proof (cases m)
    case 0
    from Suc.prems obtain d' where d: "d = Suc d'" by (cases d) auto
    have "slept (drop d' (Sleep 10 # rest)) \<le> slept (Sleep 10 # rest)" by (rule slept_drop_le)
    then show ?thesis using 0 d by (simp add: tick_events_def)
  next
    case (Suc m')
    with Suc.prems obtain d' where d: "d = Suc (Suc d')" and le: "2 * m \<le> d' + 1"
      by (cases d; cases "d - 1") auto
    have "slept (drop d' (tick_events m @ rest)) \<le> 10 + slept rest" using le by (rule Suc.IH)
    then show ?thesis using d by (simp add: tick_events_def)
  qed
qed

lemma slept_after_signal:
  assumes "signal_at e = Some k" and "k \<le> i + d"
  shows "slept (drop d (wait_events e n i)) \<le> 10"
proof -
  have "2 * ticks_done e n i \<le> d + 1"
    using assms by (simp add: ticks_done_def min_def) arith
  then have "slept (drop d (wait_events e n i))
      \<le> 10 + slept (if ticks_done e n i < n then [ReadFlag True] else [])"
    unfolding wait_events_def by (rule slept_late_ticks)
  moreover have "slept (if ticks_done e n i < n then [ReadFlag True] else []) = 0" by simp
  ultimately show ?thesis by simp
qed

lemma draw_install_delay_trace:
  assumes "draw_install_delay e tr = (d, tr1)"
  shows "\<exists>m j. tr1 = tr @ [RandInt 7 16 m, RandInt 0 59 j] \<and> d = m * 60 + j
           \<and> 7 \<le> m \<and> m \<le> 16 \<and> 0 \<le> j \<and> j \<le> 59"
proof -
  obtain m t1 where a: "randint e 7 16 tr = (m, t1)" by (cases "randint e 7 16 tr")
  obtain j t2 where b: "randint e 0 59 t1 = (j, t2)" by (cases "randint e 0 59 t1")
  have t1: "t1 = tr @ [RandInt 7 16 m]" using a by (auto simp: randint_def Let_def)
  have t2: "t2 = t1 @ [RandInt 0 59 j]" using b by (auto simp: randint_def Let_def)
  have "d = m * 60 + j \<and> tr1 = t2" using assms a b by (simp add: draw_install_delay_def)
  then show ?thesis
    using t1 t2 randint_range [OF _ a] randint_range [OF _ b] by simp
qed

lemma draw_next_delay_trace:
  assumes "draw_next_delay e tr = (d, tr1)"
  shows "tr1 = tr @ [RandInt 60 180 d] \<and> 60 \<le> d \<and> d \<le> 180"
proof -
  have r: "randint e 60 180 tr = (d, tr1)" using assms by (simp add: draw_next_delay_def)
  then have "tr1 = tr @ [RandInt 60 180 d]" by (auto simp: randint_def Let_def)
  then show ?thesis using randint_range [OF _ r] by simp
qed

lemma install_wait_trace:
  assumes "draw_install_delay e tr = (d, tr1)"
  shows "install_wait e tr = tr1 @ wait_events e (nat (d div 10)) (length tr1)"
  using assms by (simp add: install_wait_def wait_ticks_trace)

lemma next_batch_wait_trace:
  assumes "draw_next_delay e tr = (d, tr1)"
  shows "next_batch_wait e tr = tr1 @ wait_events e (nat (d div 10)) (length tr1)"
  using assms by (simp add: next_batch_wait_def wait_ticks_trace)

subsection \<open>The lock file\<close>

lemma py_int_4242: "py_int (strip ''4242'') = Some 4242"
  by (simp add: py_int_def strip_def is_space_def is_digit_def digit_val_def
        int_max_str_digits_def)

lemma py_int_garbage: "py_int (strip ''not a pid'') = None"
  by (simp add: py_int_def strip_def is_space_def is_digit_def digit_val_def)

lemma py_int_0: "py_int (strip ''0'') = Some 0"
  by (simp add: py_int_def strip_def is_space_def is_digit_def digit_val_def
        int_max_str_digits_def)

lemma str_int_0: "str_int 0 = ''0''"
  by code_simp

lemma cleanup_pid_file_None: "pid_file (cleanup_pid_file w) = None"
  by (simp add: cleanup_pid_file_def os_remove_pid_file_def)

lemma is_space_not_digit: "is_space c \<Longrightarrow> \<not> is_digit c"
  by (auto simp: is_space_def is_digit_def)

lemma filter_digit_dropWhile: "filter is_digit (dropWhile is_space s) = filter is_digit s"
  by (induction s) (auto simp: is_space_not_digit)

lemma filter_digit_strip: "filter is_digit (strip s) = filter is_digit s"
  by (simp add: strip_def filter_digit_dropWhile rev_filter [symmetric])

lemma py_int_digit_limit:
  assumes "int_max_str_digits < length (filter is_digit s)"
  shows "py_int s = None"
proof -
  let ?t = "strip s"
  let ?body = "if ?t \<noteq> [] \<and> (hd ?t = CHR ''-'' \<or> hd ?t = CHR ''+'') then tl ?t else ?t"
  have "filter is_digit ?body = filter is_digit ?t"
    by (cases ?t) (auto simp: is_digit_def)
  then have "int_max_str_digits < length (filter is_digit ?body)"
    using assms by (simp add: filter_digit_strip)
  then show ?thesis by (simp add: py_int_def Let_def)
qed

lemma py_int_long_zeros: "py_int (strip (replicate 4300 CHR ''0'' @ ''1'')) = None"
  by (rule py_int_digit_limit) (simp add: filter_digit_strip int_max_str_digits_def is_digit_def)

lemma os_kill_probe_positive:
  assumes "0 < pid" and "pid \<le> 2147483647"
  shows "os_kill w pid Probe
      = (if pid \<notin> procs w then Inl (OSError ESRCH)
         else if pid \<in> foreign w then Inl (OSError EPERM)
         else Inr w)"
  using assms by (simp add: os_kill_def targets_def reached_def)

lemma os_kill_probe_zero: "self w \<notin> foreign w \<Longrightarrow> os_kill w 0 Probe = Inr w"
  by (auto simp add: os_kill_def targets_def reached_def)

lemma os_kill_sigterm_zero: "self w \<notin> foreign w \<Longrightarrow> os_kill w 0 SIGTERM = Inl Terminated"
  by (auto simp add: os_kill_def targets_def reached_def)

lemma check_existing_process_cases:
  assumes "pid_file w = Some content"
  shows "(py_int (strip content) = Some pid \<and> 0 < pid \<and> pid \<le> 2147483647
            \<and> pid \<in> procs w \<and> pid \<notin> foreign w \<longrightarrow>
           check_existing_process w
             = (True,
                [''Another instance is already running (PID: '' @ str_int pid @ '')'',
                 ''Check log file: '' @ log_path,
                 ''If not running, remove: '' @ pid_path],
                w))
       \<and> (py_int (strip content) = Some pid \<and> 0 < pid \<and> pid \<notin> procs w \<longrightarrow>
           check_existing_process w = (False, [], w\<lparr>pid_file := None\<rparr>))
       \<and> (py_int (strip content) = Some pid \<and> 0 < pid \<and> pid \<in> foreign w \<longrightarrow>
           check_existing_process w = (False, [], w\<lparr>pid_file := None\<rparr>))
       \<and> (py_int (strip content) = None \<longrightarrow>
           check_existing_process w = (False, [], w\<lparr>pid_file := None\<rparr>))
       \<and> (int_max_str_digits < length (filter is_digit content) \<longrightarrow>
           check_existing_process w = (False, [], w\<lparr>pid_file := None\<rparr>))"
proof -
  have a: "check_existing_process w
             = (True,
                [''Another instance is already running (PID: '' @ str_int pid @ '')'',
                 ''Check log file: '' @ log_path,
                 ''If not running, remove: '' @ pid_path],
                w)"
    if "py_int (strip content) = Some pid" "0 < pid" "pid \<le> 2147483647"
       "pid \<in> procs w" "pid \<notin> foreign w"
    using that assms by (simp add: check_existing_process_def os_kill_probe_positive)
  have b: "check_existing_process w = (False, [], w\<lparr>pid_file := None\<rparr>)"
    if "py_int (strip content) = Some pid"
       and "pid \<notin> procs w \<or> pid \<in> foreign w" and "0 < pid"
  proof (cases "pid \<le> 2147483647")
    case True
    then show ?thesis
      using that assms
      by (auto simp: check_existing_process_def os_kill_probe_positive os_remove_pid_file_def)
  next
    case False
    then have "os_kill w pid Probe = Inl OverflowError" by (simp add: os_kill_def)
    then show ?thesis
      using that assms by (simp add: check_existing_process_def os_remove_pid_file_def)
  qed
  have c: "check_existing_process w = (False, [], w\<lparr>pid_file := None\<rparr>)"
    if "py_int (strip content) = None"
    using that assms by (simp add: check_existing_process_def os_remove_pid_file_def)
  have d: "check_existing_process w = (False, [], w\<lparr>pid_file := None\<rparr>)"
    if "int_max_str_digits < length (filter is_digit content)"
  proof -
    have "py_int (strip content) = None"
      using that by (intro py_int_digit_limit) (simp add: filter_digit_strip)
    then show ?thesis by (rule c)
  qed
  from a b c d show ?thesis by blast
qed

text \<open>\<^verbatim>\<open>stop_process\<close> on the two lock files that \<^verbatim>\<open>check_existing_process\<close> misjudges: the
  signal to process group 0 ends the command itself, and the signal to the process of
  another user is refused.\<close>

lemma stop_zero_terminates: "stop_process r zero_world = Inl Terminated"
  by (simp add: stop_process_def zero_world_def py_int_0 os_kill_sigterm_zero)

lemma stop_foreign: "stop_process r foreign_world
   = Inr ([''Error stopping process: [Errno 1] Operation not permitted''],
          foreign_world\<lparr>pid_file := None\<rparr>)"
  by (simp add: stop_process_def foreign_world_def py_int_4242 os_kill_def targets_def
        reached_def str_os_error_def cleanup_pid_file_def os_remove_pid_file_def)

subsection \<open>Traces that only grow\<close>

lemma shutdown_flag_mono: "shutdown_flag e i \<Longrightarrow> i \<le> j \<Longrightarrow> shutdown_flag e j"
  by (auto simp: shutdown_flag_def split: option.splits)

lemma read_flag_eq:
  "read_flag e tr = (shutdown_flag e (length tr), tr @ [ReadFlag (shutdown_flag e (length tr))])"
  by (simp add: read_flag_def Let_def)

lemma calm_simps [simp]:
  "calm (ReadFlag b)" "calm (Sleep s)" "calm (RandInt lo hi v)" "calm (Sample xs)"
  "calm (Run argv tmo r) = (take 2 argv \<noteq> [''apt'', ''remove''])"
  "\<not> calm (BatchStart n sz p apps)"
  by (simp_all add: calm_def)

lemma quiet_simps [simp]:
  "quiet (ReadFlag b)" "quiet (Sleep s)" "quiet (RandInt lo hi v)" "quiet (Sample xs)"
  "quiet (Run argv tmo r)" "\<not> quiet (BatchStart n sz p apps)"
  by (simp_all add: quiet_def)

lemma calm_quiet: "calm ev \<Longrightarrow> quiet ev"
  by (simp add: calm_def quiet_def)

lemma extends_refl: "extends Q tr tr"
  by (simp add: extends_def)

lemma extends_trans: "extends Q a b \<Longrightarrow> extends Q b c \<Longrightarrow> extends Q a c"
  by (auto simp: extends_def)

lemma extends_snoc: "Q ev \<Longrightarrow> extends Q tr (tr @ [ev])"
  by (simp add: extends_def)

lemma extends_append: "list_all Q evs \<Longrightarrow> extends Q tr (tr @ evs)"
  by (simp add: extends_def)

lemma batches_append: "batches (xs @ ys) = batches xs @ batches ys"
  by (induction xs rule: batches.induct) simp_all

lemma batches_quiet: "list_all quiet evs \<Longrightarrow> batches evs = []"
  by (induction evs rule: batches.induct) simp_all

lemma extends_batches: "extends quiet a b \<Longrightarrow> batches b = batches a"
  by (auto simp: extends_def batches_append batches_quiet)

lemma extends_calm_quiet: "extends calm a b \<Longrightarrow> extends quiet a b"
  by (auto simp: extends_def list_all_iff calm_quiet)

lemma extends_calm_batches: "extends calm a b \<Longrightarrow> batches b = batches a"
  by (rule extends_batches) (rule extends_calm_quiet)

subsection \<open>What each operation appends\<close>

lemma read_flag_calm: "extends calm tr (snd (read_flag e tr))"
  by (simp add: read_flag_eq extends_snoc)

lemma randint_calm: "randint e lo hi tr = (v, tr') \<Longrightarrow> extends calm tr tr'"
  by (auto simp: randint_def Let_def extends_snoc)

lemma subprocess_run_eq:
  "subprocess_run e argv tmo tr
     = (run_result e (length tr), tr @ [Run argv tmo (run_result e (length tr))])"
  by (simp add: subprocess_run_def Let_def)

lemma install_individually_calm:
  "extends calm tr (snd (install_individually e apps c tr))"
proof (induction apps arbitrary: c tr)
  case Nil
  show ?case by (simp add: extends_refl)
next
  case (Cons app rest)
  let ?tr1 = "tr @ [Run [''apt'', ''install'', ''-y'', app] 300 (run_result e (length tr))]"
  have a: "extends calm tr ?tr1" by (rule extends_snoc) simp
  have "\<exists>c'. install_individually e (app # rest) c tr = install_individually e rest c' ?tr1"
    by (cases "run_result e (length tr)") (auto simp: subprocess_run_eq)
  then obtain c' where
    "install_individually e (app # rest) c tr = install_individually e rest c' ?tr1" ..
  then show ?case using extends_trans [OF a Cons.IH [of ?tr1 c']] by simp
qed

lemma install_batch_calm: "extends calm tr (snd (install_batch e apps tr))"
proof -
  let ?tr1 = "tr @ [Run ([''apt'', ''install'', ''-y''] @ apps) 900 (run_result e (length tr))]"
  have a: "extends calm tr ?tr1" by (rule extends_snoc) simp
  have "snd (install_batch e apps tr) = ?tr1
        \<or> snd (install_batch e apps tr) = snd (install_individually e apps 0 ?tr1)"
    by (cases "run_result e (length tr)")
       (auto simp: install_batch_def subprocess_run_eq split_def Let_def)
  then show ?thesis
    using a extends_trans [OF a install_individually_calm [of ?tr1 e apps 0]] by auto
qed

lemma uninstall_individually_quiet:
  "extends quiet tr (snd (uninstall_individually e apps tr))"
proof (induction apps arbitrary: tr)
  case Nil
  show ?case by (simp add: extends_refl)
next
  case (Cons app rest)
  let ?tr1 = "tr @ [Run [''apt'', ''remove'', ''-y'', app] 180 (run_result e (length tr))]"
  have a: "extends quiet tr ?tr1" by (rule extends_snoc) simp
  have "snd (uninstall_individually e (app # rest) tr) = ?tr1
        \<or> snd (uninstall_individually e (app # rest) tr) = snd (uninstall_individually e rest ?tr1)"
    by (cases "run_result e (length tr)") (auto simp: subprocess_run_eq)
  then show ?case using a extends_trans [OF a Cons.IH [of ?tr1]] by auto
qed

lemma uninstall_batch_quiet: "extends quiet tr (snd (uninstall_batch e apps tr))"
proof -
  let ?tr1 = "tr @ [Run ([''apt'', ''remove'', ''-y''] @ apps) 600 (run_result e (length tr))]"
  have a: "extends quiet tr ?tr1" by (rule extends_snoc) simp
  have "snd (uninstall_batch e apps tr) = ?tr1
        \<or> snd (uninstall_batch e apps tr) = snd (uninstall_individually e apps ?tr1)"
    by (cases "run_result e (length tr)")
       (auto simp: uninstall_batch_def subprocess_run_eq split_def Let_def
             split: option.splits prod.splits)
  then show ?thesis
    using a extends_trans [OF a uninstall_individually_quiet [of ?tr1 e apps]] by auto
qed

lemma cleanup_system_calm: "extends calm tr (cleanup_system e tr)"
proof -
  let ?tr1 = "tr @ [Run [''apt'', ''autoremove'', ''-y''] 300 (run_result e (length tr))]"
  let ?tr2 = "?tr1 @ [Run [''apt'', ''autoclean''] 180 (run_result e (length ?tr1))]"
  have a: "extends calm tr ?tr1" by (rule extends_snoc) simp
  have b: "extends calm ?tr1 ?tr2" by (rule extends_snoc) simp
  have "cleanup_system e tr = ?tr1 \<or> cleanup_system e tr = ?tr2"
    by (cases "run_result e (length tr)") (auto simp: cleanup_system_def subprocess_run_eq)
  then show ?thesis using a extends_trans [OF a b] by auto
qed

lemma update_system_calm: "extends calm tr (snd (update_system e tr))"
proof -
  have "snd (update_system e tr) = tr @ [Run [''apt'', ''update''] 300 (run_result e (length tr))]"
    by (cases "run_result e (length tr)") (auto simp: update_system_def subprocess_run_eq)
  then show ?thesis by (simp add: extends_snoc)
qed

lemma tick_events_calm: "list_all calm (tick_events m)"
  by (induction m) (simp_all add: tick_events_def)

lemma wait_events_calm: "list_all calm (wait_events e n i)"
  by (simp add: wait_events_def tick_events_calm)

lemma install_wait_calm: "extends calm tr (install_wait e tr)"
proof -
  obtain d tr1 where i: "draw_install_delay e tr = (d, tr1)" by (cases "draw_install_delay e tr")
  obtain m j where "tr1 = tr @ [RandInt 7 16 m, RandInt 0 59 j]"
    using draw_install_delay_trace [OF i] by auto
  then have "install_wait e tr = tr @ ([RandInt 7 16 m, RandInt 0 59 j]
               @ wait_events e (nat (d div 10)) (length tr1))"
    using install_wait_trace [OF i] by simp
  then show ?thesis by (simp add: extends_def wait_events_calm)
qed

lemma next_batch_wait_calm: "extends calm tr (next_batch_wait e tr)"
proof -
  obtain d tr1 where i: "draw_next_delay e tr = (d, tr1)" by (cases "draw_next_delay e tr")
  have "tr1 = tr @ [RandInt 60 180 d]" using draw_next_delay_trace [OF i] by simp
  then have "next_batch_wait e tr = tr @ ([RandInt 60 180 d]
               @ wait_events e (nat (d div 10)) (length tr1))"
    using next_batch_wait_trace [OF i] by simp
  then show ?thesis by (simp add: extends_def wait_events_calm)
qed

lemma select_batch_calm:
  "select_batch e total_apps processed tr = (b, tr') \<Longrightarrow> extends calm tr tr'"
  by (auto simp: select_batch_def randint_def random_sample_def Let_def extends_def)

lemma finish_batch_quiet:
  "extends quiet tr (trace (finish_batch e total_apps processed n bs apps tr))"
proof -
  let ?tr1 = "snd (uninstall_batch e apps tr)"
  let ?tr2 = "if processed + bs < total_apps
              then (if \<not> shutdown_flag e (length ?tr1)
                    then next_batch_wait e (snd (read_flag e ?tr1)) else snd (read_flag e ?tr1))
              else ?tr1"
  let ?tr3 = "if n mod 5 = 0
              then (if \<not> shutdown_flag e (length ?tr2)
                    then cleanup_system e (snd (read_flag e ?tr2)) else snd (read_flag e ?tr2))
              else ?tr2"
  have t: "trace (finish_batch e total_apps processed n bs apps tr) = ?tr3"
    by (simp add: finish_batch_def Let_def split_def read_flag_eq)
  have a: "extends quiet tr ?tr1" by (rule uninstall_batch_quiet)
  have b: "extends calm ?tr1 ?tr2"
    using read_flag_calm [of ?tr1 e] next_batch_wait_calm [of "snd (read_flag e ?tr1)" e]
    by (auto intro: extends_refl extends_trans)
  have c: "extends calm ?tr2 ?tr3"
    using read_flag_calm [of ?tr2 e] cleanup_system_calm [of "snd (read_flag e ?tr2)" e]
    by (auto intro: extends_refl extends_trans)
  have "extends quiet tr ?tr3"
    using a extends_calm_quiet [OF b] extends_calm_quiet [OF c]
    by (blast intro: extends_trans)
  then show ?thesis by (simp only: t)
qed

subsection \<open>The choice of a batch\<close>

lemma take_distinct_length: "length (take_distinct g pool k) = min k (length pool)"
proof (induction k arbitrary: pool)
  case 0
  show ?case by simp
next
  case (Suc k)
  show ?case
  proof (cases "pool = []")
    case True
    then show ?thesis by simp
  next
    case False
    let ?i = "g k mod length pool"
    let ?rest = "take ?i pool @ drop (Suc ?i) pool"
    have "?i < length pool" using False by simp
    then have "length ?rest = length pool - 1" by simp
    moreover have "length (take_distinct g pool (Suc k)) = Suc (length (take_distinct g ?rest k))"
      using False by (simp add: Let_def)
    ultimately show ?thesis using Suc.IH [of ?rest] False
      by (cases pool) (simp_all add: min_def)
  qed
qed

lemma catalog_length: "length ALL_USEFUL_APPS = 256"
  by (simp add: ALL_USEFUL_APPS_def)

lemma select_batch_apps:
  assumes "processed < total_apps"
    and "select_batch e total_apps processed tr = ((bs, apps), tr')"
  shows "int (length apps) = bs"
proof -
  have f: "fst (select_batch e total_apps processed tr) = (bs, apps)" using assms(2) by simp
  have r: "1 \<le> bs \<and> bs \<le> 14" using select_batch_size [OF assms(1) f] by simp
  have "\<exists>g. apps = take_distinct g ALL_USEFUL_APPS (nat (min bs (int (length ALL_USEFUL_APPS))))"
    using assms(2) by (auto simp: select_batch_def random_sample_def Let_def split_def)
  then obtain g where "apps = take_distinct g ALL_USEFUL_APPS (nat (min bs 256))"
    by (auto simp: catalog_length)
  then have "length apps = min (nat (min bs 256)) 256"
    by (simp add: take_distinct_length catalog_length)
  moreover have "nat bs \<le> 256" using r by arith
  ultimately show ?thesis using r by (simp add: min_def)
qed

subsection \<open>One pass through the loop body\<close>

lemma install_phase_stop:
  assumes "shutdown_flag e (length (trace st))"
  shows "install_phase e total_apps st
           = (None, st\<lparr>batch_number := batch_number st + 1, trace := trace st @ [ReadFlag True]\<rparr>)"
  using assms by (simp add: install_phase_def read_flag_eq)

lemma install_phase_go:
  assumes "\<not> shutdown_flag e (length (trace st))"
  obtains bs apps tr2 tr4 where
    "select_batch e total_apps (processed_apps st) (trace st @ [ReadFlag False]) = ((bs, apps), tr2)"
    and "extends calm (tr2 @ [BatchStart (batch_number st + 1) bs (processed_apps st) apps]) tr4"
    and "install_phase e total_apps st
           = (if shutdown_flag e (length tr4) then None else Some (bs, apps),
              st\<lparr>batch_number := batch_number st + 1,
                  trace := tr4 @ [ReadFlag (shutdown_flag e (length tr4))]\<rparr>)"
proof -
  obtain bs apps tr2 where
    s: "select_batch e total_apps (processed_apps st) (trace st @ [ReadFlag False]) = ((bs, apps), tr2)"
    by (metis prod.collapse)
  let ?tr3 = "tr2 @ [BatchStart (batch_number st + 1) bs (processed_apps st) apps]"
  let ?tr4 = "snd (install_batch e apps ?tr3)"
  have x: "extends calm ?tr3 ?tr4" by (rule install_batch_calm)
  have "install_phase e total_apps st
           = (if shutdown_flag e (length ?tr4) then None else Some (bs, apps),
              st\<lparr>batch_number := batch_number st + 1,
                  trace := ?tr4 @ [ReadFlag (shutdown_flag e (length ?tr4))]\<rparr>)"
    using assms s by (simp add: install_phase_def read_flag_eq split_def Let_def)
  with s x show ?thesis by (rule that)
qed

lemma wait_phase_eq:
  "wait_phase e tr = (shutdown_flag e (length (install_wait e tr)),
                      install_wait e tr @ [ReadFlag (shutdown_flag e (length (install_wait e tr)))])"
  by (simp add: wait_phase_def read_flag_eq)

lemma loop_body_cases:
  obtains
    (stop1) "shutdown_flag e (length (trace st))"
      "loop_body e total_apps st
         = (Break, st\<lparr>batch_number := batch_number st + 1, trace := trace st @ [ReadFlag True]\<rparr>)"
  | (stop2) bs apps tr2 tr4 where
      "\<not> shutdown_flag e (length (trace st))"
      "select_batch e total_apps (processed_apps st) (trace st @ [ReadFlag False]) = ((bs, apps), tr2)"
      "extends calm (tr2 @ [BatchStart (batch_number st + 1) bs (processed_apps st) apps]) tr4"
      "shutdown_flag e (length tr4)"
      "loop_body e total_apps st
         = (Break, st\<lparr>batch_number := batch_number st + 1, trace := tr4 @ [ReadFlag True]\<rparr>)"
  | (stop3) bs apps tr2 tr4 where
      "\<not> shutdown_flag e (length (trace st))"
      "select_batch e total_apps (processed_apps st) (trace st @ [ReadFlag False]) = ((bs, apps), tr2)"
      "extends calm (tr2 @ [BatchStart (batch_number st + 1) bs (processed_apps st) apps]) tr4"
      "\<not> shutdown_flag e (length tr4)"
      "shutdown_flag e (length (install_wait e (tr4 @ [ReadFlag False])))"
      "loop_body e total_apps st
         = (Break, st\<lparr>batch_number := batch_number st + 1,
                      trace := install_wait e (tr4 @ [ReadFlag False]) @ [ReadFlag True]\<rparr>)"
  | (go) bs apps tr2 tr4 where
      "\<not> shutdown_flag e (length (trace st))"
      "select_batch e total_apps (processed_apps st) (trace st @ [ReadFlag False]) = ((bs, apps), tr2)"
      "extends calm (tr2 @ [BatchStart (batch_number st + 1) bs (processed_apps st) apps]) tr4"
      "\<not> shutdown_flag e (length tr4)"
      "\<not> shutdown_flag e (length (install_wait e (tr4 @ [ReadFlag False])))"
      "loop_body e total_apps st
         = (Continue, finish_batch e total_apps (processed_apps st) (batch_number st + 1) bs apps
                        (install_wait e (tr4 @ [ReadFlag False]) @ [ReadFlag False]))"
proof (cases "shutdown_flag e (length (trace st))")
  case True
  then show ?thesis using stop1 by (simp add: loop_body_def install_phase_stop)
next
  case False
  from install_phase_go [OF False, of total_apps] obtain bs apps tr2 tr4 where
    s: "select_batch e total_apps (processed_apps st) (trace st @ [ReadFlag False]) = ((bs, apps), tr2)"
    and x: "extends calm (tr2 @ [BatchStart (batch_number st + 1) bs (processed_apps st) apps]) tr4"
    and i: "install_phase e total_apps st
           = (if shutdown_flag e (length tr4) then None else Some (bs, apps),
              st\<lparr>batch_number := batch_number st + 1,
                  trace := tr4 @ [ReadFlag (shutdown_flag e (length tr4))]\<rparr>)"
    by blast
  show ?thesis
  proof (cases "shutdown_flag e (length tr4)")
    case True
    then have "loop_body e total_apps st
         = (Break, st\<lparr>batch_number := batch_number st + 1, trace := tr4 @ [ReadFlag True]\<rparr>)"
      using i by (simp add: loop_body_def)
    with False s x True show ?thesis by (rule stop2)
  next
    case f4: False
    let ?tr6 = "install_wait e (tr4 @ [ReadFlag False])"
    show ?thesis
    proof (cases "shutdown_flag e (length ?tr6)")
      case True
      then have "loop_body e total_apps st
         = (Break, st\<lparr>batch_number := batch_number st + 1, trace := ?tr6 @ [ReadFlag True]\<rparr>)"
        using i f4 by (simp add: loop_body_def wait_phase_eq)
      with False s x f4 True show ?thesis by (rule stop3)
    next
      case f6: False
      then have "loop_body e total_apps st
         = (Continue, finish_batch e total_apps (processed_apps st) (batch_number st + 1) bs apps
                        (?tr6 @ [ReadFlag False]))"
        using i f4 by (simp add: loop_body_def wait_phase_eq)
      with False s x f4 f6 show ?thesis by (rule go)
    qed
  qed
qed

lemma loop_body_Break:
  assumes "loop_body e total_apps st = (Break, st')"
  shows "shutdown_flag e (length (trace st')) \<and> processed_apps st' = processed_apps st"
proof (cases rule: loop_body_cases [of e st total_apps])
  case stop1
  then show ?thesis using assms shutdown_flag_mono [of e "length (trace st)" "Suc (length (trace st))"]
    by auto
next
  case (stop2 bs apps tr2 tr4)
  then show ?thesis using assms shutdown_flag_mono [of e "length tr4" "Suc (length tr4)"]
    by auto
next
  case (stop3 bs apps tr2 tr4)
  then show ?thesis
    using assms shutdown_flag_mono [of e "length (install_wait e (tr4 @ [ReadFlag False]))"
        "Suc (length (install_wait e (tr4 @ [ReadFlag False])))"]
    by auto
next
  case (go bs apps tr2 tr4)
  then show ?thesis using assms by simp
qed

lemma loop_body_batches:
  assumes "processed_apps st < total_apps" and "loop_body e total_apps st = (f, st')"
  shows "(f = Break \<and> batches (trace st') = batches (trace st))
       \<or> (\<exists>n sz apps. batches (trace st') = batches (trace st) @ [(n, sz, processed_apps st, apps)]
            \<and> 1 \<le> sz \<and> sz \<le> 14 \<and> int (length apps) = sz
            \<and> (5 \<le> sz \<or> processed_apps st + sz = total_apps)
            \<and> (f = Continue \<longrightarrow> processed_apps st' = processed_apps st + sz))"
proof -
  have new: "\<exists>n sz apps'. batches tr' = batches (trace st) @ [(n, sz, processed_apps st, apps')]
            \<and> 1 \<le> sz \<and> sz \<le> 14 \<and> int (length apps') = sz
            \<and> (5 \<le> sz \<or> processed_apps st + sz = total_apps)
            \<and> (bs = sz)"
    if s: "select_batch e total_apps (processed_apps st) (trace st @ [ReadFlag False]) = ((bs, apps), tr2)"
      and x: "extends calm (tr2 @ [BatchStart (batch_number st + 1) bs (processed_apps st) apps]) tr4"
      and y: "extends quiet tr4 tr'"
    for bs apps tr2 tr4 tr'
  proof -
    have "batches tr2 = batches (trace st @ [ReadFlag False])"
      using select_batch_calm [OF s] by (rule extends_calm_batches)
    then have "batches tr4 = batches (trace st) @ [(batch_number st + 1, bs, processed_apps st, apps)]"
      using extends_calm_batches [OF x] by (simp add: batches_append)
    then have b: "batches tr' = batches (trace st) @ [(batch_number st + 1, bs, processed_apps st, apps)]"
      using extends_batches [OF y] by simp
    have "fst (select_batch e total_apps (processed_apps st) (trace st @ [ReadFlag False])) = (bs, apps)"
      using s by simp
    from select_batch_size [OF assms(1) this] select_batch_apps [OF assms(1) s] b
    show ?thesis by blast
  qed
  show ?thesis
  proof (cases rule: loop_body_cases [of e st total_apps])
    case stop1
    then show ?thesis using assms(2) by (auto simp: batches_append)
  next
    case (stop2 bs apps tr2 tr4)
    have "extends quiet tr4 (tr4 @ [ReadFlag True])" by (rule extends_snoc) simp
    from new [OF stop2(2) stop2(3) this] stop2(5) assms(2) show ?thesis by auto
  next
    case (stop3 bs apps tr2 tr4)
    let ?tr6 = "install_wait e (tr4 @ [ReadFlag False])"
    have "extends calm tr4 (tr4 @ [ReadFlag False])" by (rule extends_snoc) simp
    moreover have "extends calm (tr4 @ [ReadFlag False]) ?tr6" by (rule install_wait_calm)
    moreover have "extends calm ?tr6 (?tr6 @ [ReadFlag True])" by (rule extends_snoc) simp
    ultimately have "extends quiet tr4 (?tr6 @ [ReadFlag True])"
      by (blast intro: extends_trans extends_calm_quiet)
    from new [OF stop3(2) stop3(3) this] stop3(6) assms(2) show ?thesis by auto
  next
    case (go bs apps tr2 tr4)
    let ?tr6 = "install_wait e (tr4 @ [ReadFlag False])"
    let ?fin = "finish_batch e total_apps (processed_apps st) (batch_number st + 1) bs apps
                  (?tr6 @ [ReadFlag False])"
    have "extends calm tr4 (tr4 @ [ReadFlag False])" by (rule extends_snoc) simp
    moreover have "extends calm (tr4 @ [ReadFlag False]) ?tr6" by (rule install_wait_calm)
    moreover have "extends calm ?tr6 (?tr6 @ [ReadFlag False])" by (rule extends_snoc) simp
    ultimately have "extends quiet tr4 (?tr6 @ [ReadFlag False])"
      by (blast intro: extends_trans extends_calm_quiet)
    then have "extends quiet tr4 (trace ?fin)"
      using finish_batch_quiet [of "?tr6 @ [ReadFlag False]" e total_apps "processed_apps st"
          "batch_number st + 1" bs apps]
      by (rule extends_trans)
    from new [OF go(2) go(3) this] go(6) assms(2) show ?thesis
      by (auto simp: finish_batch_processed)
  qed
qed

subsection \<open>The whole loop\<close>

lemma main_loop_unfold:
  "main_loop e total_apps st =
     (if processed_apps st < total_apps
      then (if shutdown_flag e (length (trace st)) then st\<lparr>trace := trace st @ [ReadFlag True]\<rparr>
            else (case loop_body e total_apps (st\<lparr>trace := trace st @ [ReadFlag False]\<rparr>) of
                    (Break, st') \<Rightarrow> st'
                  | (Continue, st') \<Rightarrow> main_loop e total_apps st'))
      else st)"
  by (subst main_loop.simps) (simp add: read_flag_eq)

lemma main_loop_induct [case_names step]:
  assumes step: "\<And>st. (\<And>st'. processed_apps st < total_apps
                    \<Longrightarrow> \<not> shutdown_flag e (length (trace st))
                    \<Longrightarrow> loop_body e total_apps (st\<lparr>trace := trace st @ [ReadFlag False]\<rparr>)
                          = (Continue, st')
                    \<Longrightarrow> P st') \<Longrightarrow> P st"
  shows "P st"
proof (induction "nat (total_apps - processed_apps st)" arbitrary: st rule: less_induct)
  case less
  show ?case
  proof (rule step)
    fix st'
    assume lt: "processed_apps st < total_apps"
      and c: "loop_body e total_apps (st\<lparr>trace := trace st @ [ReadFlag False]\<rparr>) = (Continue, st')"
    from loop_body_progress [OF _ c] lt have "processed_apps st < processed_apps st'" by simp
    then have "nat (total_apps - processed_apps st') < nat (total_apps - processed_apps st)"
      using lt by simp
    then show "P st'" by (rule less)
  qed
qed

lemma main_loop_bound:
  "processed_apps st \<le> total_apps \<Longrightarrow> processed_apps (main_loop e total_apps st) \<le> total_apps"
proof (induction st rule: main_loop_induct [where e = e and total_apps = total_apps])
  case (step st)
  let ?st1 = "st\<lparr>trace := trace st @ [ReadFlag False]\<rparr>"
  show ?case
  proof (cases "processed_apps st < total_apps \<and> \<not> shutdown_flag e (length (trace st))")
    case False
    then show ?thesis using step.prems by (subst main_loop_unfold) auto
  next
    case True
    obtain f st' where b: "loop_body e total_apps ?st1 = (f, st')"
      by (cases "loop_body e total_apps ?st1")
    show ?thesis
    proof (cases f)
      case Break
      then have "main_loop e total_apps st = st'" using True b by (subst main_loop_unfold) simp
      moreover have "processed_apps st' = processed_apps st"
        using loop_body_Break [of e total_apps ?st1 st'] b Break by simp
      ultimately show ?thesis using step.prems by simp
    next
      case Continue
      then have m: "main_loop e total_apps st = main_loop e total_apps st'"
        using True b by (subst main_loop_unfold) simp
      have "processed_apps st' \<le> total_apps"
        using loop_body_progress [of ?st1 total_apps e st'] b Continue True by simp
      then show ?thesis using step.IH [of st'] True b Continue m by simp
    qed
  qed
qed

lemma main_loop_exit:
  "processed_apps (main_loop e total_apps st) < total_apps
     \<Longrightarrow> shutdown_flag e (length (trace (main_loop e total_apps st)))"
proof (induction st rule: main_loop_induct [where e = e and total_apps = total_apps])
  case (step st)
  let ?st1 = "st\<lparr>trace := trace st @ [ReadFlag False]\<rparr>"
  show ?case
  proof (cases "processed_apps st < total_apps")
    case False
    then show ?thesis using step.prems by (subst (asm) main_loop_unfold) simp
  next
    case lt: True
    show ?thesis
    proof (cases "shutdown_flag e (length (trace st))")
      case True
      then have "main_loop e total_apps st = st\<lparr>trace := trace st @ [ReadFlag True]\<rparr>"
        using lt by (subst main_loop_unfold) simp
      then show ?thesis
        using shutdown_flag_mono [OF True, of "Suc (length (trace st))"] by simp
    next
      case False
      obtain f st' where b: "loop_body e total_apps ?st1 = (f, st')"
        by (cases "loop_body e total_apps ?st1")
      show ?thesis
      proof (cases f)
        case Break
        then have "main_loop e total_apps st = st'" using lt False b by (subst main_loop_unfold) simp
        then show ?thesis using loop_body_Break [of e total_apps ?st1 st'] b Break by simp
      next
        case Continue
        then have m: "main_loop e total_apps st = main_loop e total_apps st'"
          using lt False b by (subst main_loop_unfold) simp
        show ?thesis using step.IH [of st'] step.prems lt False b Continue m by simp
      qed
    qed
  qed
qed

lemma batches_ok_Cons:
  "batch_ok total_apps False b \<Longrightarrow> batches_ok total_apps bs \<Longrightarrow> batches_ok total_apps (b # bs)"
  by (cases bs) (simp_all add: batch_ok_def split: prod.splits)

lemma main_loop_batches:
  "\<exists>new. batches (trace (main_loop e total_apps st)) = batches (trace st) @ new
         \<and> batches_ok total_apps new"
proof (induction st rule: main_loop_induct [where e = e and total_apps = total_apps])
  case (step st)
  let ?st1 = "st\<lparr>trace := trace st @ [ReadFlag False]\<rparr>"
  have none: "batches_ok total_apps []" by simp
  show ?case
  proof (cases "processed_apps st < total_apps")
    case False
    then have "main_loop e total_apps st = st" by (subst main_loop_unfold) simp
    then show ?thesis using none by simp
  next
    case lt: True
    show ?thesis
    proof (cases "shutdown_flag e (length (trace st))")
      case True
      then have "main_loop e total_apps st = st\<lparr>trace := trace st @ [ReadFlag True]\<rparr>"
        using lt by (subst main_loop_unfold) simp
      then show ?thesis using none by (simp add: batches_append)
    next
      case False
      obtain f st' where b: "loop_body e total_apps ?st1 = (f, st')"
        by (cases "loop_body e total_apps ?st1")
      have lt1: "processed_apps ?st1 < total_apps" using lt by simp
      have b1: "batches (trace ?st1) = batches (trace st)" by (simp add: batches_append)
      note lb = loop_body_batches [OF lt1 b, unfolded b1]
      show ?thesis
      proof (cases f)
        case Break
        then have m: "main_loop e total_apps st = st'"
          using lt False b by (subst main_loop_unfold) simp
        from lb show ?thesis
        proof
          assume "f = Break \<and> batches (trace st') = batches (trace st)"
          then show ?thesis using m none by simp
        next
          assume "\<exists>n sz apps. batches (trace st') = batches (trace st) @ [(n, sz, processed_apps ?st1, apps)]
            \<and> 1 \<le> sz \<and> sz \<le> 14 \<and> int (length apps) = sz
            \<and> (5 \<le> sz \<or> processed_apps ?st1 + sz = total_apps)
            \<and> (f = Continue \<longrightarrow> processed_apps st' = processed_apps ?st1 + sz)"
          then obtain n sz apps where
            eq: "batches (trace st') = batches (trace st) @ [(n, sz, processed_apps ?st1, apps)]"
            and ok: "1 \<le> sz" "sz \<le> 14" "int (length apps) = sz"
              "5 \<le> sz \<or> processed_apps ?st1 + sz = total_apps"
            by blast
          have "batches_ok total_apps [(n, sz, processed_apps ?st1, apps)]"
            using ok by (auto simp: batch_ok_def)
          then show ?thesis using m eq by blast
        qed
      next
        case Continue
        then have m: "main_loop e total_apps st = main_loop e total_apps st'"
          using lt False b by (subst main_loop_unfold) simp
        from lb Continue obtain n sz apps where
          eq: "batches (trace st') = batches (trace st) @ [(n, sz, processed_apps ?st1, apps)]"
          and ok: "1 \<le> sz" "sz \<le> 14" "int (length apps) = sz"
            "5 \<le> sz \<or> processed_apps ?st1 + sz = total_apps"
          and p: "processed_apps st' = processed_apps ?st1 + sz"
          by auto
        from step.IH [OF lt False] b Continue obtain new where
          ih: "batches (trace (main_loop e total_apps st')) = batches (trace st') @ new"
          and okn: "batches_ok total_apps new"
          by auto
        have "batches_ok total_apps ((n, sz, processed_apps ?st1, apps) # new)"
        proof (cases "5 \<le> sz")
          case True
          then have "batch_ok total_apps False (n, sz, processed_apps ?st1, apps)"
            using ok by (simp add: batch_ok_def)
          then show ?thesis using okn by (rule batches_ok_Cons)
        next
          case False
          then have "processed_apps st' = total_apps" using ok(4) p by simp
          then have "main_loop e total_apps st' = st'" by (subst main_loop_unfold) simp
          then have "new = []" using ih by simp
          then show ?thesis using ok by (simp add: batch_ok_def)
        qed
        then show ?thesis using m ih eq by simp
      qed
    qed
  qed
qed

subsection \<open>The run as a whole\<close>

lemma no_signal_flag: "signal_at e = None \<Longrightarrow> \<not> shutdown_flag e i"
  by (simp add: shutdown_flag_def)

lemma extends_no_remove:
  assumes "extends (\<lambda>ev. \<not> is_remove ev) a b"
  shows "filter is_remove (drop (length a) b) = []"
  using assms by (auto simp: extends_def list_all_iff filter_empty_conv)

lemma extends_calm_no_remove: "extends calm a b \<Longrightarrow> extends (\<lambda>ev. \<not> is_remove ev) a b"
  by (auto simp: extends_def list_all_iff calm_def)

lemma install_phase_no_remove:
  "extends (\<lambda>ev. \<not> is_remove ev) (trace st) (trace (snd (install_phase e total_apps st)))"
proof (cases "shutdown_flag e (length (trace st))")
  case True
  then show ?thesis by (simp add: install_phase_stop extends_snoc)
next
  case False
  from install_phase_go [OF False, of total_apps] obtain bs apps tr2 tr4 where
    s: "select_batch e total_apps (processed_apps st) (trace st @ [ReadFlag False]) = ((bs, apps), tr2)"
    and x: "extends calm (tr2 @ [BatchStart (batch_number st + 1) bs (processed_apps st) apps]) tr4"
    and i: "install_phase e total_apps st
           = (if shutdown_flag e (length tr4) then None else Some (bs, apps),
              st\<lparr>batch_number := batch_number st + 1,
                  trace := tr4 @ [ReadFlag (shutdown_flag e (length tr4))]\<rparr>)"
    by blast
  let ?Q = "\<lambda>ev. \<not> is_remove ev"
  have "extends ?Q (trace st) (trace st @ [ReadFlag False])" by (rule extends_snoc) simp
  moreover have "extends ?Q (trace st @ [ReadFlag False]) tr2"
    using select_batch_calm [OF s] by (rule extends_calm_no_remove)
  moreover have "extends ?Q tr2 (tr2 @ [BatchStart (batch_number st + 1) bs (processed_apps st) apps])"
    by (rule extends_snoc) simp
  moreover have "extends ?Q (tr2 @ [BatchStart (batch_number st + 1) bs (processed_apps st) apps]) tr4"
    using x by (rule extends_calm_no_remove)
  moreover have "extends ?Q tr4 (tr4 @ [ReadFlag (shutdown_flag e (length tr4))])"
    by (rule extends_snoc) simp
  ultimately have "extends ?Q (trace st) (tr4 @ [ReadFlag (shutdown_flag e (length tr4))])"
    by (blast intro: extends_trans)
  then show ?thesis using i by simp
qed

lemma loop_head_main_loop:
  "loop_head e total_apps st0 j = Some st \<Longrightarrow> main_loop e total_apps st0 = main_loop e total_apps st"
proof (induction j arbitrary: st0)
  case 0
  then show ?case by simp
next
  case (Suc j)
  from Suc.prems have c: "processed_apps st0 < total_apps" "\<not> shutdown_flag e (length (trace st0))"
    by (auto simp: read_flag_eq split: if_splits)
  let ?st1 = "st0\<lparr>trace := trace st0 @ [ReadFlag False]\<rparr>"
  obtain f st' where b: "loop_body e total_apps ?st1 = (f, st')"
    by (cases "loop_body e total_apps ?st1")
  from Suc.prems c b have f: "f = Continue" and h: "loop_head e total_apps st' j = Some st"
    by (auto simp: read_flag_eq split: flow.splits)
  have "main_loop e total_apps st0 = main_loop e total_apps st'"
    using c b f by (subst main_loop_unfold) simp
  then show ?case using Suc.IH [OF h] by simp
qed

lemma start_run_facts:
  assumes "start_run e = (total_apps, st0)"
  shows "161 \<le> total_apps \<and> total_apps \<le> 199 \<and> processed_apps st0 = 0
         \<and> batch_number st0 = 0 \<and> batches (trace st0) = []"
proof -
  obtain total tr1 where r: "randint e 161 199 (snd (update_system e [])) = (total, tr1)"
    by (metis prod.collapse)
  have s: "total_apps = total" "st0 = \<lparr>processed_apps = 0, batch_number = 0, trace = tr1\<rparr>"
    using assms r by (auto simp: start_run_def split_def)
  have "extends calm [] tr1"
    using update_system_calm [of "[]" e] randint_calm [OF r] by (rule extends_trans)
  then have "batches tr1 = []" using extends_calm_batches by fastforce
  then show ?thesis using randint_range [OF _ r] s by simp
qed

lemma main_installation_eq:
  assumes "start_run e = (total_apps, st0)"
  shows "main_installation e = finish_run e total_apps (main_loop e total_apps st0)"
  using assms by (simp add: main_installation_def)

lemma finish_run_facts:
  "quota (finish_run e total_apps st) = total_apps"
  "processed_apps (final (finish_run e total_apps st)) = processed_apps st"
  "batch_number (final (finish_run e total_apps st)) = batch_number st"
  "banner (finish_run e total_apps st)
     = (if shutdown_flag e (length (trace st)) then Stopped else Completed)"
  by (simp_all add: finish_run_def read_flag_eq Let_def split_def)

lemma finish_run_calm: "extends calm (trace st) (trace (final (finish_run e total_apps st)))"
proof -
  let ?tr2 = "snd (read_flag e (trace st))"
  let ?tr3 = "cleanup_system e ?tr2"
  have "trace (final (finish_run e total_apps st)) = snd (read_flag e ?tr3)"
    by (simp add: finish_run_def Let_def split_def)
  moreover have "extends calm (trace st) (snd (read_flag e ?tr3))"
    using read_flag_calm [of "trace st" e] cleanup_system_calm [of ?tr2 e] read_flag_calm [of ?tr3 e]
    by (blast intro: extends_trans)
  ultimately show ?thesis by simp
qed

lemma completed_loop_meets_quota:
  assumes "processed_apps st \<le> total_apps"
    and "\<not> shutdown_flag e (length (trace (main_loop e total_apps st)))"
  shows "processed_apps (main_loop e total_apps st) = total_apps"
  using main_loop_bound [OF assms(1), of e] main_loop_exit [of e total_apps st] assms(2)
  by fastforce

lemma per_item_policy_eq:
  "per_item_policy e cmd tmo apps c tr
     = (c + successes e (length apps) (length tr), tr @ item_runs e cmd tmo apps (length tr))"
proof (induction apps arbitrary: c tr)
  case Nil
  show ?case by simp
next
  case (Cons app rest)
  show ?case
    by (cases "run_result e (length tr)") (simp_all add: subprocess_run_eq Cons.IH)
qed

lemma install_individually_policy:
  "install_individually e apps c tr = per_item_policy e [''apt'', ''install'', ''-y''] 300 apps c tr"
proof (induction apps arbitrary: c tr)
  case Nil
  show ?case by simp
next
  case (Cons app rest)
  show ?case
    by (cases "run_result e (length tr)") (simp_all add: subprocess_run_eq Cons.IH)
qed

lemma install_batch_policy:
  "install_batch e apps tr = batch_policy e [''apt'', ''install'', ''-y''] 900 300 apps tr"
  by (simp add: install_batch_def batch_policy_def install_individually_policy
        split: prod.splits proc_result.splits)

lemma uninstall_individually_eq:
  "all_returned e (length apps) (length tr)
     \<Longrightarrow> uninstall_individually e apps tr
           = (None, tr @ item_runs e [''apt'', ''remove'', ''-y''] 180 apps (length tr))"
proof (induction apps arbitrary: tr)
  case Nil
  show ?case by simp
next
  case (Cons app rest)
  then show ?case
    by (cases "run_result e (length tr)") (simp_all add: subprocess_run_eq)
qed

lemma main_loop_last_batch:
  assumes "\<not> shutdown_flag e (length (trace (main_loop e total_apps st)))"
    and "batches (trace (main_loop e total_apps st)) = batches (trace st) @ new"
  shows "(new = [] \<longrightarrow> processed_apps (main_loop e total_apps st) = processed_apps st)
       \<and> (new \<noteq> [] \<longrightarrow> batch_end (last new) = processed_apps (main_loop e total_apps st))"
  using assms
proof (induction st arbitrary: new rule: main_loop_induct [where e = e and total_apps = total_apps])
  case (step st)
  let ?st1 = "st\<lparr>trace := trace st @ [ReadFlag False]\<rparr>"
  show ?case
  proof (cases "processed_apps st < total_apps")
    case False
    then have "main_loop e total_apps st = st" by (subst main_loop_unfold) simp
    then show ?thesis using step.prems(2) by simp
  next
    case lt: True
    show ?thesis
    proof (cases "shutdown_flag e (length (trace st))")
      case True
      then have "main_loop e total_apps st = st\<lparr>trace := trace st @ [ReadFlag True]\<rparr>"
        using lt by (subst main_loop_unfold) simp
      then have "shutdown_flag e (length (trace (main_loop e total_apps st)))"
        using shutdown_flag_mono [OF True, of "Suc (length (trace st))"] by simp
      then show ?thesis using step.prems(1) by simp
    next
      case False
      obtain f st' where b: "loop_body e total_apps ?st1 = (f, st')"
        by (cases "loop_body e total_apps ?st1")
      have lt1: "processed_apps ?st1 < total_apps" using lt by simp
      have b1: "batches (trace ?st1) = batches (trace st)" by (simp add: batches_append)
      note lb = loop_body_batches [OF lt1 b, unfolded b1]
      show ?thesis
      proof (cases f)
        case Break
        then have "main_loop e total_apps st = st'"
          using lt False b by (subst main_loop_unfold) simp
        then have "shutdown_flag e (length (trace (main_loop e total_apps st)))"
          using loop_body_Break [of e total_apps ?st1 st'] b Break by simp
        then show ?thesis using step.prems(1) by simp
      next
        case Continue
        then have m: "main_loop e total_apps st = main_loop e total_apps st'"
          using lt False b by (subst main_loop_unfold) simp
        from lb Continue obtain n sz apps where
          eq: "batches (trace st') = batches (trace st) @ [(n, sz, processed_apps ?st1, apps)]"
          and p: "processed_apps st' = processed_apps ?st1 + sz"
          by auto
        obtain new' where
          ih: "batches (trace (main_loop e total_apps st')) = batches (trace st') @ new'"
          using main_loop_batches [of e total_apps st'] by blast
        have new: "new = (n, sz, processed_apps st, apps) # new'"
          using step.prems(2) ih eq m by simp
        have nf: "\<not> shutdown_flag e (length (trace (main_loop e total_apps st')))"
          using step.prems(1) m by simp
        note r = step.IH [OF lt False _ nf ih]
        have r': "(new' = [] \<longrightarrow> processed_apps (main_loop e total_apps st') = processed_apps st')
           \<and> (new' \<noteq> [] \<longrightarrow> batch_end (last new') = processed_apps (main_loop e total_apps st'))"
          using r b Continue by simp
        show ?thesis
        proof (cases "new' = []")
          case True
          then show ?thesis using r' new p m by simp
        next
          case False
          then show ?thesis using r' new m by simp
        qed
      qed
    qed
  qed
qed

text \<open>A per-package remove call that raises ends the per-package pass of
  \<^verbatim>\<open>uninstall_batch\<close> and makes its result \<open>False\<close>: the packages after it are not tried.
  The per-package pass of \<^verbatim>\<open>install_batch\<close>, and so the mirror, goes on to the last
  package.\<close>

lemma uninstall_item_timeout_ends_pass:
  "uninstall_batch item_timeout_env [''htop'', ''vim'', ''git''] []
     = (False,
        [Run [''apt'', ''remove'', ''-y'', ''htop'', ''vim'', ''git''] 600 (Returned 1),
         Run [''apt'', ''remove'', ''-y'', ''htop''] 180 (Returned 0),
         Run [''apt'', ''remove'', ''-y'', ''vim''] 180 TimeoutExpired])
   \<and> uninstall_batch_mirror item_timeout_env [''htop'', ''vim'', ''git''] []
     = (True,
        [Run [''apt'', ''remove'', ''-y'', ''htop'', ''vim'', ''git''] 600 (Returned 1),
         Run [''apt'', ''remove'', ''-y'', ''htop''] 180 (Returned 0),
         Run [''apt'', ''remove'', ''-y'', ''vim''] 180 TimeoutExpired,
         Run [''apt'', ''remove'', ''-y'', ''git''] 180 (Returned 0)])
   \<and> install_batch item_timeout_env [''htop'', ''vim'', ''git''] []
     = (True,
        [Run [''apt'', ''install'', ''-y'', ''htop'', ''vim'', ''git''] 900 (Returned 1),
         Run [''apt'', ''install'', ''-y'', ''htop''] 300 (Returned 0),
         Run [''apt'', ''install'', ''-y'', ''vim''] 300 TimeoutExpired,
         Run [''apt'', ''install'', ''-y'', ''git''] 300 (Returned 0)])"
  by (simp add: item_timeout_env_def uninstall_batch_def uninstall_batch_mirror_def
        batch_policy_def install_batch_def subprocess_run_eq)

section \<open>Properties\<close>

text \<open>
  C1. The quota of a run lies between 161 and 199 and the count of processed packages never
  passes it: the batch size is cut to the remainder. A run that ends with the banner
  \<^verbatim>\<open>ALL BATCHES COMPLETED!\<close> has processed exactly its quota.
\<close>

theorem completed_run_meets_quota:
  "161 \<le> quota (main_installation e) \<and> quota (main_installation e) \<le> 199
   \<and> processed_apps (final (main_installation e)) \<le> quota (main_installation e)
   \<and> (banner (main_installation e) = Completed \<longrightarrow>
        processed_apps (final (main_installation e)) = quota (main_installation e))"
proof -
  obtain total_apps st0 where s: "start_run e = (total_apps, st0)" by (cases "start_run e")
  note m = main_installation_eq [OF s]
  note f = start_run_facts [OF s]
  have le: "processed_apps st0 \<le> total_apps" using f by simp
  have "processed_apps (main_loop e total_apps st0) \<le> total_apps"
    using le by (rule main_loop_bound)
  moreover have "processed_apps (main_loop e total_apps st0) = total_apps"
    if "banner (main_installation e) = Completed"
  proof -
    have "\<not> shutdown_flag e (length (trace (main_loop e total_apps st0)))"
      using that by (simp add: m finish_run_facts split: if_splits)
    with le show ?thesis by (rule completed_loop_meets_quota)
  qed
  ultimately show ?thesis using f by (simp add: m finish_run_facts)
qed

theorem completed_run_meets_quota_witness:
  "banner (main_installation jitter_env) = Completed
   \<and> quota (main_installation jitter_env) = 198
   \<and> processed_apps (final (main_installation jitter_env)) = 198"
proof -
  have s: "start_run jitter_env
      = (198, \<lparr>processed_apps = 0, batch_number = 0,
               trace = [Run [''apt'', ''update''] 300 (Returned 0), RandInt 161 199 198]\<rparr>)"
    by code_simp
  have q: "quota (main_installation jitter_env) = 198"
    by (simp add: main_installation_eq [OF s] finish_run_facts)
  have "signal_at jitter_env = None" by (simp add: jitter_env_def)
  then have b: "banner (main_installation jitter_env) = Completed"
    by (simp add: main_installation_eq [OF s] finish_run_facts no_signal_flag)
  show ?thesis using completed_run_meets_quota [of jitter_env] b q by simp
qed

text \<open>
  C2. A whole-batch install call that times out does not start the per-item pass:
  \<^verbatim>\<open>install_batch\<close> returns \<open>False\<close> after that one call.
\<close>

theorem whole_batch_timeout_counterexample:
  "run_result timeout_env 0 = TimeoutExpired
   \<and> install_batch timeout_env [''htop'', ''vim''] []
       = (False, [Run [''apt'', ''install'', ''-y'', ''htop'', ''vim''] 900 TimeoutExpired])"
  by (simp add: timeout_env_def install_batch_def subprocess_run_eq)

text \<open>
  C2, as the code has it. A whole-batch install call that returns a non-zero code is followed
  by one call per package, in order, each with a timeout of 300 seconds and each tried
  whatever the others did; the result is whether at least one returned 0. A whole-batch
  call that times out, or that raises any other exception, ends the phase with \<open>False\<close> and
  no further call. None of these aborts the run: without a signal, every run completes its
  quota, whatever the package manager does.
\<close>

theorem install_failure_policy:
  "(run_result e (length tr) = Returned rc \<and> rc \<noteq> 0 \<longrightarrow>
      install_batch e apps tr
        = (0 < successes e (length apps) (Suc (length tr)),
           tr @ Run ([''apt'', ''install'', ''-y''] @ apps) 900 (Returned rc)
                # item_runs e [''apt'', ''install'', ''-y''] 300 apps (Suc (length tr))))
   \<and> (run_result e (length tr) = TimeoutExpired \<longrightarrow>
      install_batch e apps tr
        = (False, tr @ [Run ([''apt'', ''install'', ''-y''] @ apps) 900 TimeoutExpired]))
   \<and> (run_result e (length tr) = OtherException \<longrightarrow>
      install_batch e apps tr
        = (False, tr @ [Run ([''apt'', ''install'', ''-y''] @ apps) 900 OtherException]))
   \<and> (signal_at e = None \<longrightarrow>
      banner (main_installation e) = Completed
      \<and> processed_apps (final (main_installation e)) = quota (main_installation e))"
proof -
  have a: "install_batch e apps tr
        = (0 < successes e (length apps) (Suc (length tr)),
           tr @ Run ([''apt'', ''install'', ''-y''] @ apps) 900 (Returned rc)
                # item_runs e [''apt'', ''install'', ''-y''] 300 apps (Suc (length tr)))"
    if "run_result e (length tr) = Returned rc" and "rc \<noteq> 0"
    using that
    by (simp add: install_batch_policy batch_policy_def subprocess_run_eq per_item_policy_eq)
  have b: "install_batch e apps tr
        = (False, tr @ [Run ([''apt'', ''install'', ''-y''] @ apps) 900 TimeoutExpired])"
    if "run_result e (length tr) = TimeoutExpired"
    using that by (simp add: install_batch_def subprocess_run_eq)
  have b': "install_batch e apps tr
        = (False, tr @ [Run ([''apt'', ''install'', ''-y''] @ apps) 900 OtherException])"
    if "run_result e (length tr) = OtherException"
    using that by (simp add: install_batch_def subprocess_run_eq)
  have c: "banner (main_installation e) = Completed
      \<and> processed_apps (final (main_installation e)) = quota (main_installation e)"
    if n: "signal_at e = None"
  proof -
    obtain total_apps st0 where s: "start_run e = (total_apps, st0)" by (cases "start_run e")
    have "processed_apps st0 \<le> total_apps" using start_run_facts [OF s] by simp
    moreover have "\<not> shutdown_flag e (length (trace (main_loop e total_apps st0)))"
      using n by (rule no_signal_flag)
    ultimately have "processed_apps (main_loop e total_apps st0) = total_apps"
      by (rule completed_loop_meets_quota)
    then show ?thesis
      using n by (simp add: main_installation_eq [OF s] finish_run_facts no_signal_flag)
  qed
  from a b b' c show ?thesis by blast
qed

theorem install_failure_policy_witness:
  "install_batch flaky_env [''htop'', ''vim'', ''git''] []
     = (True,
        [Run [''apt'', ''install'', ''-y'', ''htop'', ''vim'', ''git''] 900 (Returned 100),
         Run [''apt'', ''install'', ''-y'', ''htop''] 300 (Returned 1),
         Run [''apt'', ''install'', ''-y'', ''vim''] 300 (Returned 0),
         Run [''apt'', ''install'', ''-y'', ''git''] 300 (Returned 1)])
   \<and> install_batch timeout_env [''htop''] []
     = (False, [Run [''apt'', ''install'', ''-y'', ''htop''] 900 TimeoutExpired])
   \<and> install_batch broken_env [''htop''] []
     = (False, [Run [''apt'', ''install'', ''-y'', ''htop''] 900 OtherException])
   \<and> banner (main_installation timeout_env) = Completed
   \<and> processed_apps (final (main_installation timeout_env)) = quota (main_installation timeout_env)"
proof -
  have r: "run_result flaky_env (length ([]::event list)) = Returned 100 \<and> (100::int) \<noteq> 0"
    by (simp add: flaky_env_def)
  have t: "run_result timeout_env (length ([]::event list)) = TimeoutExpired"
    by (simp add: timeout_env_def)
  have o: "run_result broken_env (length ([]::event list)) = OtherException"
    by (simp add: broken_env_def)
  have n: "signal_at timeout_env = None" by (simp add: timeout_env_def)
  note a = install_failure_policy [of flaky_env "[]" 100 "[''htop'', ''vim'', ''git'']",
      THEN conjunct1, THEN mp, OF r]
  note b = install_failure_policy [of timeout_env "[]" 0 "[''htop'']",
      THEN conjunct2, THEN conjunct1, THEN mp, OF t]
  note b' = install_failure_policy [of broken_env "[]" 0 "[''htop'']",
      THEN conjunct2, THEN conjunct2, THEN conjunct1, THEN mp, OF o]
  note c = install_failure_policy [of timeout_env "[]" 0 "[]",
      THEN conjunct2, THEN conjunct2, THEN conjunct2, THEN mp, OF n]
  show ?thesis using a b b' c by (simp add: flaky_env_def)
qed

text \<open>
  C3. \<^verbatim>\<open>uninstall_batch\<close> is not the install policy with the remove operation: when the
  whole-batch call and every per-item call fail, the mirror reports failure and
  \<^verbatim>\<open>uninstall_batch\<close> reports success, since it counts nothing.
\<close>

theorem uninstall_not_mirror_counterexample:
  "uninstall_batch failing_env [''htop''] []
     = (True, [Run [''apt'', ''remove'', ''-y'', ''htop''] 600 (Returned 1),
               Run [''apt'', ''remove'', ''-y'', ''htop''] 180 (Returned 1)])
   \<and> uninstall_batch_mirror failing_env [''htop''] []
     = (False, [Run [''apt'', ''remove'', ''-y'', ''htop''] 600 (Returned 1),
                Run [''apt'', ''remove'', ''-y'', ''htop''] 180 (Returned 1)])"
  by (simp add: failing_env_def uninstall_batch_def uninstall_batch_mirror_def batch_policy_def
        subprocess_run_eq)

text \<open>
  C3, as the code has it. \<^verbatim>\<open>uninstall_batch\<close> makes the whole-batch remove call first. On
  return code 0, on a timeout and on any other exception of that call it does what the
  mirror of the install policy does. On a non-zero return code, when every remove call for
  a single package returns, it has made exactly one such call per package, in order and
  with a timeout of 180 seconds, as the mirror does, and its result is \<open>True\<close> whatever the
  calls returned: no successes are counted. The count of processed packages grows by the
  batch size whatever the result. (A pass in which a call for a single package raises is
  not part of this statement.)
\<close>

theorem uninstall_failure_policy:
  "(run_result e (length tr) = Returned 0 \<longrightarrow>
      uninstall_batch e apps tr
        = (True, tr @ [Run ([''apt'', ''remove'', ''-y''] @ apps) 600 (Returned 0)])
      \<and> uninstall_batch e apps tr = uninstall_batch_mirror e apps tr)
   \<and> (run_result e (length tr) = Returned rc \<and> rc \<noteq> 0
        \<and> all_returned e (length apps) (Suc (length tr)) \<longrightarrow>
      uninstall_batch e apps tr
        = (True,
           tr @ Run ([''apt'', ''remove'', ''-y''] @ apps) 600 (Returned rc)
                # item_runs e [''apt'', ''remove'', ''-y''] 180 apps (Suc (length tr)))
      \<and> snd (uninstall_batch e apps tr) = snd (uninstall_batch_mirror e apps tr))
   \<and> (run_result e (length tr) = TimeoutExpired \<or> run_result e (length tr) = OtherException \<longrightarrow>
      uninstall_batch e apps tr
        = (False, tr @ [Run ([''apt'', ''remove'', ''-y''] @ apps) 600 (run_result e (length tr))])
      \<and> uninstall_batch e apps tr = uninstall_batch_mirror e apps tr)
   \<and> processed_apps (finish_batch e total_apps processed n bs apps tr) = processed + bs"
proof -
  let ?rm = "[''apt'', ''remove'', ''-y'']"
  have a: "uninstall_batch e apps tr = (True, tr @ [Run (?rm @ apps) 600 (Returned 0)])
      \<and> uninstall_batch e apps tr = uninstall_batch_mirror e apps tr"
    if "run_result e (length tr) = Returned 0"
    using that
    by (simp add: uninstall_batch_def uninstall_batch_mirror_def batch_policy_def subprocess_run_eq)
  have b: "uninstall_batch e apps tr
        = (True, tr @ Run (?rm @ apps) 600 (Returned rc) # item_runs e ?rm 180 apps (Suc (length tr)))
      \<and> snd (uninstall_batch e apps tr) = snd (uninstall_batch_mirror e apps tr)"
    if r: "run_result e (length tr) = Returned rc" "rc \<noteq> 0"
      and al: "all_returned e (length apps) (Suc (length tr))"
  proof -
    let ?tr1 = "tr @ [Run (?rm @ apps) 600 (Returned rc)]"
    have "all_returned e (length apps) (length ?tr1)" using al by simp
    then have "uninstall_individually e apps ?tr1
        = (None, ?tr1 @ item_runs e ?rm 180 apps (length ?tr1))"
      by (rule uninstall_individually_eq)
    then have u: "uninstall_batch e apps tr
        = (True, tr @ Run (?rm @ apps) 600 (Returned rc) # item_runs e ?rm 180 apps (Suc (length tr)))"
      using r by (simp add: uninstall_batch_def subprocess_run_eq)
    have "snd (uninstall_batch_mirror e apps tr)
        = tr @ Run (?rm @ apps) 600 (Returned rc) # item_runs e ?rm 180 apps (Suc (length tr))"
      using r
      by (simp add: uninstall_batch_mirror_def batch_policy_def subprocess_run_eq
            per_item_policy_eq)
    with u show ?thesis by simp
  qed
  have c: "uninstall_batch e apps tr
        = (False, tr @ [Run (?rm @ apps) 600 (run_result e (length tr))])
      \<and> uninstall_batch e apps tr = uninstall_batch_mirror e apps tr"
    if "run_result e (length tr) = TimeoutExpired \<or> run_result e (length tr) = OtherException"
    using that
    by (auto simp: uninstall_batch_def uninstall_batch_mirror_def batch_policy_def
          subprocess_run_eq)
  from a b c finish_batch_processed [of e total_apps processed n bs apps tr]
  show ?thesis by blast
qed

theorem uninstall_failure_policy_witness:
  "uninstall_batch flaky_env [''htop'', ''vim'', ''git''] []
     = (True,
        [Run [''apt'', ''remove'', ''-y'', ''htop'', ''vim'', ''git''] 600 (Returned 100),
         Run [''apt'', ''remove'', ''-y'', ''htop''] 180 (Returned 1),
         Run [''apt'', ''remove'', ''-y'', ''vim''] 180 (Returned 0),
         Run [''apt'', ''remove'', ''-y'', ''git''] 180 (Returned 1)])
   \<and> uninstall_batch timeout_env [''htop''] []
     = (False, [Run [''apt'', ''remove'', ''-y'', ''htop''] 600 TimeoutExpired])
   \<and> uninstall_batch jitter_env [''htop''] []
     = (True, [Run [''apt'', ''remove'', ''-y'', ''htop''] 600 (Returned 0)])"
proof -
  have r: "run_result flaky_env (length ([]::event list)) = Returned 100 \<and> (100::int) \<noteq> 0
      \<and> all_returned flaky_env (length [''htop'', ''vim'', ''git'']) (Suc (length ([]::event list)))"
    by (simp add: flaky_env_def)
  have t: "run_result timeout_env (length ([]::event list)) = TimeoutExpired
      \<or> run_result timeout_env (length ([]::event list)) = OtherException"
    by (simp add: timeout_env_def)
  have z: "run_result jitter_env (length ([]::event list)) = Returned 0"
    by (simp add: jitter_env_def)
  note a = uninstall_failure_policy [of jitter_env "[]" "[''htop'']" 0 0 0 0 0,
      THEN conjunct1, THEN mp, OF z, THEN conjunct1]
  note b = uninstall_failure_policy [of flaky_env "[]" "[''htop'', ''vim'', ''git'']" 100 0 0 0 0,
      THEN conjunct2, THEN conjunct1, THEN mp, OF r, THEN conjunct1]
  note c = uninstall_failure_policy [of timeout_env "[]" "[''htop'']" 0 0 0 0 0,
      THEN conjunct2, THEN conjunct2, THEN conjunct1, THEN mp, OF t, THEN conjunct1]
  show ?thesis using a b c by (simp add: flaky_env_def timeout_env_def)
qed

text \<open>
  C4. Take any pass through the loop of a run, starting at the loop head \<open>st\<close>, in which the
  batch is installed with the flag still unset (line 477) and the flag is set when the wait
  ends (line 492). Then the run ends with the banner \<^verbatim>\<open>PROCESS STOPPED BY USER\<close>, the count
  of processed packages is the one the pass started with, and no \<^verbatim>\<open>apt remove\<close> is called
  from the start of the pass to the end of the run.
\<close>

theorem cancel_during_wait_skips_uninstall:
  assumes "start_run e = (total_apps, st0)"
    and "loop_head e total_apps st0 j = Some st"
    and "processed_apps st < total_apps"
    and "\<not> shutdown_flag e (length (trace st))"
    and "install_phase e total_apps (st\<lparr>trace := snd (read_flag e (trace st))\<rparr>) = (Some batch, st1)"
    and "shutdown_flag e (length (install_wait e (trace st1)))"
  shows "banner (main_installation e) = Stopped
       \<and> processed_apps (final (main_installation e)) = processed_apps st
       \<and> filter is_remove (drop (length (trace st)) (trace (final (main_installation e)))) = []"
proof -
  let ?st = "st\<lparr>trace := trace st @ [ReadFlag False]\<rparr>"
  let ?iw = "install_wait e (trace st1)"
  let ?end = "st1\<lparr>trace := ?iw @ [ReadFlag True]\<rparr>"
  let ?Q = "\<lambda>ev. \<not> is_remove ev"
  have rf: "snd (read_flag e (trace st)) = trace st @ [ReadFlag False]"
    using assms(4) by (simp add: read_flag_eq)
  have ip: "install_phase e total_apps ?st = (Some batch, st1)" using assms(5) rf by simp
  obtain bs apps where batch: "batch = (bs, apps)" by (cases batch)
  have "loop_body e total_apps ?st = (Break, ?end)"
    using ip assms(6) by (simp add: loop_body_def batch wait_phase_eq)
  then have ml: "main_loop e total_apps st = ?end"
    using assms(3,4) by (subst main_loop_unfold) simp
  have run: "main_installation e = finish_run e total_apps ?end"
    using main_installation_eq [OF assms(1)] loop_head_main_loop [OF assms(2)] ml by simp
  have "shutdown_flag e (length (trace ?end))"
    using shutdown_flag_mono [OF assms(6), of "Suc (length ?iw)"] by simp
  then have b: "banner (main_installation e) = Stopped" by (simp add: run finish_run_facts)
  have "processed_apps st1 = processed_apps ?st"
    using install_phase_Some [of e total_apps ?st bs apps st1] ip batch by simp
  then have p: "processed_apps (final (main_installation e)) = processed_apps st"
    by (simp add: run finish_run_facts)
  have "extends ?Q (trace st) (trace ?st)" by (simp add: extends_snoc)
  moreover have "extends ?Q (trace ?st) (trace st1)"
    using install_phase_no_remove [of ?st e total_apps] ip by simp
  moreover have "extends ?Q (trace st1) ?iw"
    using install_wait_calm by (rule extends_calm_no_remove)
  moreover have "extends ?Q ?iw (trace ?end)" by (simp add: extends_snoc)
  moreover have "extends ?Q (trace ?end) (trace (final (finish_run e total_apps ?end)))"
    using finish_run_calm by (rule extends_calm_no_remove)
  ultimately have "extends ?Q (trace st) (trace (final (main_installation e)))"
    unfolding run by (blast intro: extends_trans)
  then have "filter is_remove (drop (length (trace st)) (trace (final (main_installation e)))) = []"
    by (rule extends_no_remove)
  with b p show ?thesis by simp
qed

theorem cancel_during_wait_skips_uninstall_witness:
  "signal_at wait_signal_env = Some 12
   \<and> banner (main_installation wait_signal_env) = Stopped
   \<and> processed_apps (final (main_installation wait_signal_env)) = 0
   \<and> filter is_remove (drop 2 (trace (final (main_installation wait_signal_env)))) = []"
proof -
  let ?st0 = "\<lparr>processed_apps = 0, batch_number = 0,
               trace = [Run [''apt'', ''update''] 300 (Returned 0), RandInt 161 199 161]\<rparr>"
  let ?apps = "[''htop'', ''neofetch'', ''btop'', ''glances'', ''nmon'']"
  let ?st1 = "\<lparr>processed_apps = 0, batch_number = 1,
               trace = [Run [''apt'', ''update''] 300 (Returned 0), RandInt 161 199 161,
                        ReadFlag False, ReadFlag False, RandInt 5 14 5, Sample ?apps,
                        BatchStart 1 5 0 ?apps,
                        Run ([''apt'', ''install'', ''-y''] @ ?apps) 900 (Returned 0),
                        ReadFlag False]\<rparr>"
  have s: "start_run wait_signal_env = (161, ?st0)" by code_simp
  have h: "loop_head wait_signal_env 161 ?st0 0 = Some ?st0" by simp
  have lt: "processed_apps ?st0 < 161" by simp
  have nf: "\<not> shutdown_flag wait_signal_env (length (trace ?st0))"
    by (simp add: shutdown_flag_def wait_signal_env_def)
  have ip: "install_phase wait_signal_env 161
              (?st0\<lparr>trace := snd (read_flag wait_signal_env (trace ?st0))\<rparr>)
            = (Some (5, ?apps), ?st1)"
    by code_simp
  have fl: "shutdown_flag wait_signal_env (length (install_wait wait_signal_env (trace ?st1)))"
    by code_simp
  have sg: "signal_at wait_signal_env = Some 12" by (simp add: wait_signal_env_def)
  show ?thesis
    using cancel_during_wait_skips_uninstall [OF s h lt nf ip fl] sg
    by (simp add: numeral_2_eq_2)
qed

text \<open>
  C5. The two cancellable waits are loops of 10-second ticks that read the flag before every
  tick: the events of a wait are pairs of a flag read and a 10-second sleep, ended by the
  read that sees the flag. If the signal arrives at instant \<open>k\<close>, the sleeps of the wait from
  instant \<open>k\<close> on add up to at most one tick, whatever the number \<open>n\<close> of ticks of the wait.
\<close>

theorem cancelled_wait_sleeps_at_most_one_tick:
  assumes "signal_at e = Some k"
  shows "wait_ticks e n tr = tr @ wait_events e n (length tr)
       \<and> slept (drop (max k (length tr)) (wait_ticks e n tr)) \<le> 10
       \<and> slept (drop (max k (length tr)) (install_wait e tr)) \<le> 10
       \<and> slept (drop (max k (length tr)) (next_batch_wait e tr)) \<le> 10"
proof -
  have late: "slept (drop (max k (length tr)) (tr @ pre @ wait_events e n' (length (tr @ pre)))) \<le> 10"
    if "slept pre = 0" for pre n'
  proof (cases "max k (length tr) - length tr \<le> length pre")
    case True
    then have k: "k \<le> length (tr @ pre) + 0" by simp
    have "slept (drop (max k (length tr)) (tr @ pre @ wait_events e n' (length (tr @ pre))))
        = slept (drop (max k (length tr) - length tr) pre) + slept (wait_events e n' (length (tr @ pre)))"
      using True by (simp add: slept_append)
    moreover have "slept (drop (max k (length tr) - length tr) pre) \<le> slept pre"
      by (rule slept_drop_le)
    moreover have "slept (drop 0 (wait_events e n' (length (tr @ pre)))) \<le> 10"
      using assms k by (rule slept_after_signal)
    ultimately show ?thesis using that by simp
  next
    case False
    then have k: "k \<le> length (tr @ pre) + (max k (length tr) - length tr - length pre)" by simp
    have "drop (max k (length tr)) (tr @ pre @ wait_events e n' (length (tr @ pre)))
        = drop (max k (length tr) - length tr - length pre) (wait_events e n' (length (tr @ pre)))"
      using False by simp
    then show ?thesis using slept_after_signal [OF assms k] by simp
  qed
  obtain d tr1 where i: "draw_install_delay e tr = (d, tr1)" by (cases "draw_install_delay e tr")
  obtain d' tr1' where n: "draw_next_delay e tr = (d', tr1')" by (cases "draw_next_delay e tr")
  obtain m j where tr1: "tr1 = tr @ [RandInt 7 16 m, RandInt 0 59 j]"
    using draw_install_delay_trace [OF i] by auto
  have tr1': "tr1' = tr @ [RandInt 60 180 d']" using draw_next_delay_trace [OF n] by simp
  have "slept (drop (max k (length tr)) (wait_ticks e n tr)) \<le> 10"
    using late [of "[]" n] by (simp add: wait_ticks_trace)
  moreover have "slept (drop (max k (length tr)) (install_wait e tr)) \<le> 10"
    using late [of "[RandInt 7 16 m, RandInt 0 59 j]" "nat (d div 10)"]
    by (simp add: install_wait_trace [OF i] tr1)
  moreover have "slept (drop (max k (length tr)) (next_batch_wait e tr)) \<le> 10"
    using late [of "[RandInt 60 180 d']" "nat (d' div 10)"]
    by (simp add: next_batch_wait_trace [OF n] tr1')
  ultimately show ?thesis by (simp add: wait_ticks_trace)
qed

theorem cancelled_wait_sleeps_at_most_one_tick_witness:
  "signal_at late_signal_env = Some 7
   \<and> install_wait late_signal_env []
       = [RandInt 7 16 7, RandInt 0 59 0, ReadFlag False, Sleep 10, ReadFlag False, Sleep 10,
          ReadFlag False, Sleep 10, ReadFlag True]
   \<and> slept (drop (max 7 (length ([]::event list))) (install_wait late_signal_env [])) \<le> 10"
proof -
  have s: "signal_at late_signal_env = Some 7" by (simp add: late_signal_env_def)
  have "install_wait late_signal_env []
       = [RandInt 7 16 7, RandInt 0 59 0, ReadFlag False, Sleep 10, ReadFlag False, Sleep 10,
          ReadFlag False, Sleep 10, ReadFlag True]"
    by code_simp
  then show ?thesis using s cancelled_wait_sleeps_at_most_one_tick [OF s, of 0 "[]"] by simp
qed

text \<open>
  C6. Every batch of a run has as many packages as its size says, and the size is between 5
  and 14; only the last batch of the run may be smaller, and then its size is at least 1
  and is exactly what was missing to the quota. In a run that ends with the banner
  \<^verbatim>\<open>ALL BATCHES COMPLETED!\<close> the last batch brings the count to the quota.
\<close>

theorem batch_sizes_in_range:
  "batches_ok (quota (main_installation e)) (batches (trace (final (main_installation e))))
   \<and> (banner (main_installation e) = Completed \<longrightarrow>
        batches (trace (final (main_installation e))) \<noteq> []
        \<and> batch_end (last (batches (trace (final (main_installation e)))))
            = quota (main_installation e))"
proof -
  obtain total_apps st0 where s: "start_run e = (total_apps, st0)" by (cases "start_run e")
  note m = main_installation_eq [OF s]
  note f = start_run_facts [OF s]
  obtain new where
    b: "batches (trace (main_loop e total_apps st0)) = batches (trace st0) @ new"
    and ok: "batches_ok total_apps new"
    using main_loop_batches [of e total_apps st0] by blast
  have "batches (trace (final (main_installation e))) = batches (trace (main_loop e total_apps st0))"
    unfolding m using finish_run_calm by (rule extends_calm_batches)
  then have n: "batches (trace (final (main_installation e))) = new"
    using b f by simp
  have "new \<noteq> [] \<and> batch_end (last new) = total_apps"
    if "banner (main_installation e) = Completed"
  proof -
    have nf: "\<not> shutdown_flag e (length (trace (main_loop e total_apps st0)))"
      using that by (simp add: m finish_run_facts split: if_splits)
    have le: "processed_apps st0 \<le> total_apps" using f by simp
    have q: "processed_apps (main_loop e total_apps st0) = total_apps"
      using le nf by (rule completed_loop_meets_quota)
    note l = main_loop_last_batch [OF nf b]
    have "new \<noteq> []" using l q f by auto
    then show ?thesis using l q by simp
  qed
  then show ?thesis using ok n by (simp add: m finish_run_facts)
qed

theorem batch_sizes_in_range_witness:
  "batches (trace (final (main_installation wait_signal_env)))
     = [(1, 5, 0, [''htop'', ''neofetch'', ''btop'', ''glances'', ''nmon''])]
   \<and> quota (main_installation wait_signal_env) = 161
   \<and> batches_ok 161 [(1, 5, 0, [''htop'', ''neofetch'', ''btop'', ''glances'', ''nmon''])]
   \<and> banner (main_installation jitter_env) = Completed
   \<and> batch_end (last (batches (trace (final (main_installation jitter_env))))) = 198"
proof -
  have b: "batches (trace (final (main_installation wait_signal_env)))
     = [(1, 5, 0, [''htop'', ''neofetch'', ''btop'', ''glances'', ''nmon''])]"
    by code_simp
  have q: "quota (main_installation wait_signal_env) = 161" by code_simp
  have s: "start_run jitter_env
      = (198, \<lparr>processed_apps = 0, batch_number = 0,
               trace = [Run [''apt'', ''update''] 300 (Returned 0), RandInt 161 199 198]\<rparr>)"
    by code_simp
  have q': "quota (main_installation jitter_env) = 198"
    by (simp add: main_installation_eq [OF s] finish_run_facts)
  have "signal_at jitter_env = None" by (simp add: jitter_env_def)
  then have c: "banner (main_installation jitter_env) = Completed"
    by (simp add: main_installation_eq [OF s] finish_run_facts no_signal_flag)
  show ?thesis
    using batch_sizes_in_range [of wait_signal_env] batch_sizes_in_range [of jitter_env] b q q' c
    by simp
qed

text \<open>
  C7. \<^verbatim>\<open>check_existing_process\<close> takes the success of \<^verbatim>\<open>os.kill(pid, 0)\<close> for the liveness
  of the recorded process, and every \<^verbatim>\<open>OSError\<close> for its absence. The two differ. A lock
  file that holds 0, the id of no process, is reported as a running instance and kept: the
  probe of process group 0 reaches the caller itself. A lock file that holds the id of a
  live process of another user is removed and reported as not running: the probe fails
  with \<^verbatim>\<open>EPERM\<close>.
\<close>

theorem check_existing_misjudges_liveness:
  "0 \<notin> procs zero_world
   \<and> check_existing_process zero_world
       = (True,
          [''Another instance is already running (PID: 0)'',
           ''Check log file: /tmp/background_batch_installer.log'',
           ''If not running, remove: /tmp/background_batch_installer.pid''],
          zero_world)
   \<and> 4242 \<in> procs foreign_world
   \<and> check_existing_process foreign_world = (False, [], foreign_world\<lparr>pid_file := None\<rparr>)"
proof -
  have z: "check_existing_process zero_world
       = (True,
          [''Another instance is already running (PID: 0)'',
           ''Check log file: /tmp/background_batch_installer.log'',
           ''If not running, remove: /tmp/background_batch_installer.pid''],
          zero_world)"
    by (simp add: check_existing_process_def zero_world_def py_int_0 os_kill_probe_zero
          str_int_0 log_path_def pid_path_def)
  have f: "check_existing_process foreign_world
       = (False, [], foreign_world\<lparr>pid_file := None\<rparr>)"
    by (simp add: check_existing_process_def foreign_world_def py_int_4242
          os_kill_probe_positive os_remove_pid_file_def)
  show ?thesis using z f by (simp add: zero_world_def foreign_world_def)
qed

text \<open>
  C8. After a call of \<^verbatim>\<open>stop_process\<close> that returns, the lock file is absent, and a second
  call raises nothing, prints that no process is running and leaves the world as it is.
\<close>

theorem stop_twice:
  assumes "stop_process r w = Inr (out, w1)"
  shows "pid_file w1 = None \<and> stop_process r' w1 = Inr ([''No process is running''], w1)"
proof -
  have "pid_file w1 = None"
    using assms
    by (auto simp: stop_process_def cleanup_pid_file_None
             split: option.splits sum.splits failure.splits prod.splits)
  then show ?thesis by (simp add: stop_process_def)
qed

theorem stop_twice_witness:
  "stop_process StillRunning live_world
     = Inr ([''Sent stop signal to process '' @ str_int 4242,
             ''Process still running, sending SIGKILL...''],
            live_world\<lparr>pid_file := None, procs := {1, 5000}\<rparr>)
   \<and> stop_process StillRunning (live_world\<lparr>pid_file := None, procs := {1, 5000}\<rparr>)
     = Inr ([''No process is running''],
            live_world\<lparr>pid_file := None, procs := {1, 5000}\<rparr>)"
proof -
  have "stop_process StillRunning live_world
     = Inr ([''Sent stop signal to process '' @ str_int 4242,
             ''Process still running, sending SIGKILL...''],
            live_world\<lparr>pid_file := None, procs := {1, 5000}\<rparr>)"
    by (simp add: stop_process_def live_world_def py_int_4242 os_kill_def targets_def
          reached_def grace_period_def still_running_check_def cleanup_pid_file_def
          os_remove_pid_file_def insert_Diff_if)
  then show ?thesis using stop_twice [of StillRunning live_world _ _ StillRunning] by simp
qed

text \<open>
  C9. The \<^verbatim>\<open>status\<close> command reports \<^verbatim>\<open>RUNNING\<close> exactly when the lock file exists. It does
  not depend on the process table, so a stale lock file of a dead process is reported as
  running, and the command leaves the file in place.
\<close>

theorem status_ignores_liveness:
  "(pid_file w = Some content \<and> py_int (strip content) = Some pid \<and> pid \<notin> procs w \<longrightarrow>
      hd (fst (status_command w)) = ''Background process is RUNNING''
      \<and> pid_file (snd (status_command w)) = Some content)
   \<and> hd (fst (status_command w))
       = (if pid_file w \<noteq> None then ''Background process is RUNNING''
          else ''Background process is NOT running'')
   \<and> fst (status_command (w\<lparr>procs := ps\<rparr>)) = fst (status_command w)
   \<and> fst (status_command (w\<lparr>procs := ps, foreign := fs, self := me, pgrp := g\<rparr>))
       = fst (status_command w)
   \<and> snd (status_command w) = w"
  by (auto simp: status_command_def show_status_def split: option.splits)

theorem status_ignores_liveness_witness:
  "pid_file stale_world = Some ''4242'' \<and> py_int (strip ''4242'') = Some 4242
   \<and> 4242 \<notin> procs stale_world
   \<and> hd (fst (status_command stale_world)) = ''Background process is RUNNING''
   \<and> pid_file (snd (status_command stale_world)) = Some ''4242''"
proof -
  have s: "pid_file stale_world = Some ''4242''" by (simp add: stale_world_def)
  have sp: "(4242::int) \<notin> procs stale_world" by (simp add: stale_world_def)
  show ?thesis
    using status_ignores_liveness [of stale_world "''4242''" 4242] s sp py_int_4242 by simp
qed

text \<open>
  C10. A wait of \<open>d\<close> seconds, after install or before the next batch, never sleeps more than
  \<open>d - d mod 10\<close> seconds. A wait that no read of the flag interrupts consists of exactly
  \<open>d div 10\<close> ticks of 10 seconds: the remainder \<open>d mod 10\<close> is not slept.
\<close>

theorem waits_sleep_whole_ticks_only:
  assumes "draw_install_delay e tr = (delay_seconds, tr1)"
    and "draw_next_delay e tr' = (next_delay, tr1')"
  shows "int (slept (drop (length tr) (install_wait e tr))) \<le> delay_seconds - delay_seconds mod 10
       \<and> (ReadFlag True \<notin> set (drop (length tr) (install_wait e tr)) \<longrightarrow>
            install_wait e tr = tr1 @ tick_events (nat (delay_seconds div 10))
            \<and> int (slept (drop (length tr) (install_wait e tr)))
                = delay_seconds - delay_seconds mod 10)
       \<and> int (slept (drop (length tr') (next_batch_wait e tr'))) \<le> next_delay - next_delay mod 10
       \<and> (ReadFlag True \<notin> set (drop (length tr') (next_batch_wait e tr')) \<longrightarrow>
            next_batch_wait e tr' = tr1' @ tick_events (nat (next_delay div 10))
            \<and> int (slept (drop (length tr') (next_batch_wait e tr')))
                = next_delay - next_delay mod 10)"
proof -
  have whole: "10 * int (nat (d div 10)) = d - d mod 10" if "0 \<le> d" for d :: int
  proof -
    have "0 \<le> d div 10" using that by simp
    then have "int (nat (d div 10)) = d div 10" by simp
    then show ?thesis by (simp add: minus_mod_eq_mult_div)
  qed
  have part: "int (slept (pre @ wait_events e (nat (d div 10)) i)) \<le> d - d mod 10
      \<and> (ReadFlag True \<notin> set (pre @ wait_events e (nat (d div 10)) i) \<longrightarrow>
           wait_events e (nat (d div 10)) i = tick_events (nat (d div 10))
           \<and> int (slept (pre @ wait_events e (nat (d div 10)) i)) = d - d mod 10)"
    if "0 \<le> d" and "slept pre = 0" for d :: int and pre i
  proof -
    let ?n = "nat (d div 10)"
    have "int (slept (pre @ wait_events e ?n i)) = 10 * int (ticks_done e ?n i)"
      using that(2) by (simp add: slept_append slept_wait_events)
    moreover have "int (ticks_done e ?n i) \<le> int ?n"
      using ticks_done_le [of e ?n i] by (simp only: of_nat_le_iff)
    ultimately have le: "int (slept (pre @ wait_events e ?n i)) \<le> d - d mod 10"
      using whole [OF that(1)] by simp
    have "wait_events e ?n i = tick_events ?n
          \<and> int (slept (pre @ wait_events e ?n i)) = d - d mod 10"
      if "ReadFlag True \<notin> set (pre @ wait_events e ?n i)"
    proof -
      have w: "wait_events e ?n i = tick_events ?n"
        using that by (intro wait_events_uninterrupted) simp
      have "int (slept (pre @ tick_events ?n)) = 10 * int ?n"
        using \<open>slept pre = 0\<close> by (simp add: slept_append slept_tick_events)
      then show ?thesis using w whole [OF \<open>0 \<le> d\<close>] by simp
    qed
    then show ?thesis using le by blast
  qed
  obtain m j where i: "tr1 = tr @ [RandInt 7 16 m, RandInt 0 59 j]"
    and d: "0 \<le> delay_seconds"
    using draw_install_delay_trace [OF assms(1)] by auto
  have n: "tr1' = tr' @ [RandInt 60 180 next_delay]" and d': "0 \<le> next_delay"
    using draw_next_delay_trace [OF assms(2)] by auto
  have a: "drop (length tr) (install_wait e tr)
      = [RandInt 7 16 m, RandInt 0 59 j] @ wait_events e (nat (delay_seconds div 10)) (length tr1)"
    using install_wait_trace [OF assms(1)] i by simp
  have b: "drop (length tr') (next_batch_wait e tr')
      = [RandInt 60 180 next_delay] @ wait_events e (nat (next_delay div 10)) (length tr1')"
    using next_batch_wait_trace [OF assms(2)] n by simp
  have pa: "slept [RandInt 7 16 m, RandInt 0 59 j] = 0" by simp
  have pb: "slept [RandInt 60 180 next_delay] = 0" by simp
  note p1 = part [OF d pa, of "length tr1", folded a]
  note p2 = part [OF d' pb, of "length tr1'", folded b]
  have i1: "int (slept (drop (length tr) (install_wait e tr))) \<le> delay_seconds - delay_seconds mod 10"
    using p1 by (rule conjunct1)
  have i2: "install_wait e tr = tr1 @ tick_events (nat (delay_seconds div 10))
            \<and> int (slept (drop (length tr) (install_wait e tr)))
                = delay_seconds - delay_seconds mod 10"
    if "ReadFlag True \<notin> set (drop (length tr) (install_wait e tr))"
  proof (rule conjI)
    note r = p1 [THEN conjunct2, THEN mp, OF that]
    show "install_wait e tr = tr1 @ tick_events (nat (delay_seconds div 10))"
      using install_wait_trace [OF assms(1)] r [THEN conjunct1] by (simp only:)
    show "int (slept (drop (length tr) (install_wait e tr))) = delay_seconds - delay_seconds mod 10"
      by (rule r [THEN conjunct2])
  qed
  have n1: "int (slept (drop (length tr') (next_batch_wait e tr'))) \<le> next_delay - next_delay mod 10"
    using p2 by (rule conjunct1)
  have n2: "next_batch_wait e tr' = tr1' @ tick_events (nat (next_delay div 10))
            \<and> int (slept (drop (length tr') (next_batch_wait e tr')))
                = next_delay - next_delay mod 10"
    if "ReadFlag True \<notin> set (drop (length tr') (next_batch_wait e tr'))"
  proof (rule conjI)
    note r = p2 [THEN conjunct2, THEN mp, OF that]
    show "next_batch_wait e tr' = tr1' @ tick_events (nat (next_delay div 10))"
      using next_batch_wait_trace [OF assms(2)] r [THEN conjunct1] by (simp only:)
    show "int (slept (drop (length tr') (next_batch_wait e tr'))) = next_delay - next_delay mod 10"
      by (rule r [THEN conjunct2])
  qed
  show ?thesis using i1 i2 n1 n2 by blast
qed

theorem waits_sleep_whole_ticks_only_witness:
  "draw_install_delay jitter_env [] = (457, [RandInt 7 16 7, RandInt 0 59 37])
   \<and> draw_next_delay jitter_env [ReadFlag False] = (97, [ReadFlag False, RandInt 60 180 97])
   \<and> slept (install_wait jitter_env []) = 450
   \<and> slept (next_batch_wait jitter_env [ReadFlag False]) = 90"
proof -
  have a: "draw_install_delay jitter_env [] = (457, [RandInt 7 16 7, RandInt 0 59 37])"
    by (simp add: draw_install_delay_def randint_def jitter_env_def)
  have b: "draw_next_delay jitter_env [ReadFlag False] = (97, [ReadFlag False, RandInt 60 180 97])"
    by (simp add: draw_next_delay_def randint_def jitter_env_def)
  have quiet: "signal_at jitter_env = None" by (simp add: jitter_env_def)
  have w: "wait_events jitter_env n i = tick_events n" for n i
    using quiet by (simp add: wait_events_def ticks_done_def)
  have c: "ReadFlag True \<notin> set (drop (length ([]::event list)) (install_wait jitter_env []))"
    using no_stop_in_ticks by (simp add: install_wait_trace [OF a] w)
  have d: "ReadFlag True \<notin> set (drop (length [ReadFlag False])
              (next_batch_wait jitter_env [ReadFlag False]))"
    using no_stop_in_ticks by (simp add: next_batch_wait_trace [OF b] w)
  note t = waits_sleep_whole_ticks_only [OF a b]
  have "int (slept (drop (length ([]::event list)) (install_wait jitter_env []))) = 457 - 457 mod 10"
    by (rule t [THEN conjunct2, THEN conjunct1, THEN mp, OF c, THEN conjunct2])
  moreover have "int (slept (drop (length [ReadFlag False])
       (next_batch_wait jitter_env [ReadFlag False]))) = 97 - 97 mod 10"
    by (rule t [THEN conjunct2, THEN conjunct2, THEN conjunct2, THEN mp, OF d, THEN conjunct2])
  moreover have "slept (next_batch_wait jitter_env [ReadFlag False])
      = slept (drop (length [ReadFlag False]) (next_batch_wait jitter_env [ReadFlag False]))"
    by (simp add: next_batch_wait_trace [OF b] slept_append)
  ultimately show ?thesis using a b by simp
qed

end
